theory Spec2Isabelle
  imports Complex_Main "HOL-Library.Multiset" "HOL-Library.List_Lexorder"
begin

section \<open>Platform: JavaScript strings and numbers\<close>

text \<open>
  A JavaScript string is a sequence of UTF-16 code units; a code unit is modelled as a
  natural number (below 65536 in every string the program handles; no function below does
  arithmetic that depends on the bound).  Numbers used as similarity scores are modelled as
  exact reals: every score of the program is a quotient of two small set sizes, or a mean of
  two such quotients.
\<close>

type_synonym jsstring = "nat list"

definition str :: "string \<Rightarrow> jsstring" where
  \<comment> \<open>an ASCII literal of the source as a sequence of code units\<close>
  "str s = map of_char s"

definition is_space :: "nat \<Rightarrow> bool" where
  \<comment> \<open>the class \<open>\s\<close> of a JavaScript regular expression, which is also what
      \<open>String.prototype.trim\<close> removes: WhiteSpace and LineTerminator\<close>
  "is_space c \<longleftrightarrow>
     c = 9 \<or> c = 10 \<or> c = 11 \<or> c = 12 \<or> c = 13 \<or> c = 32 \<or> c = 160 \<or> c = 0x1680 \<or>
     (0x2000 \<le> c \<and> c \<le> 0x200A) \<or> c = 0x2028 \<or> c = 0x2029 \<or> c = 0x202F \<or>
     c = 0x205F \<or> c = 0x3000 \<or> c = 0xFEFF"

definition is_word :: "nat \<Rightarrow> bool" where
  \<comment> \<open>the class \<open>\w\<close> without the unicode flag: \<open>[A-Za-z0-9_]\<close>\<close>
  "is_word c \<longleftrightarrow>
     (65 \<le> c \<and> c \<le> 90) \<or> (97 \<le> c \<and> c \<le> 122) \<or> (48 \<le> c \<and> c \<le> 57) \<or> c = 95"

definition lower_unit :: "nat \<Rightarrow> nat" where
  \<comment> \<open>\<open>toLowerCase\<close> on one code unit of the blocks Basic Latin, Latin-1 Supplement and
      Cyrillic (the languages of the stored articles); other code units are left as they are\<close>
  "lower_unit c =
     (if 65 \<le> c \<and> c \<le> 90 then c + 32
      else if 0xC0 \<le> c \<and> c \<le> 0xDE \<and> c \<noteq> 0xD7 then c + 32
      else if 0x400 \<le> c \<and> c \<le> 0x40F then c + 80
      else if 0x410 \<le> c \<and> c \<le> 0x42F then c + 32
      else c)"

definition toLowerCase :: "jsstring \<Rightarrow> jsstring" where
  "toLowerCase s = map lower_unit s"

definition trim :: "jsstring \<Rightarrow> jsstring" where
  "trim s = rev (dropWhile is_space (rev (dropWhile is_space s)))"

fun collapse_spaces :: "jsstring \<Rightarrow> jsstring" where
  \<comment> \<open>\<open>.replace(/\s+/g, ' ')\<close>: every maximal run of white space becomes one space\<close>
  "collapse_spaces [] = []"
| "collapse_spaces [c] = [if is_space c then 32 else c]"
| "collapse_spaces (c # d # cs) =
     (if is_space c then
        (if is_space d then collapse_spaces (d # cs) else 32 # collapse_spaces (d # cs))
      else c # collapse_spaces (d # cs))"

fun split_on :: "nat \<Rightarrow> jsstring \<Rightarrow> jsstring list" where
  \<comment> \<open>\<open>s.split(sep)\<close> for a separator of one code unit; the empty string gives \<open>['']\<close>\<close>
  "split_on sep [] = [[]]"
| "split_on sep (c # cs) =
     (if c = sep then [] # split_on sep cs
      else (case split_on sep cs of [] \<Rightarrow> [[c]] | w # ws \<Rightarrow> (c # w) # ws))"

definition or_empty :: "jsstring option \<Rightarrow> jsstring" where
  \<comment> \<open>\<open>x || ''\<close> for a string that may be undefined\<close>
  "or_empty x = (case x of None \<Rightarrow> [] | Some s \<Rightarrow> s)"

definition or_str :: "jsstring option \<Rightarrow> jsstring option \<Rightarrow> jsstring option" where
  \<comment> \<open>\<open>x || y\<close> for strings that may be undefined: the empty string is falsy\<close>
  "or_str x y = (case x of None \<Rightarrow> y | Some s \<Rightarrow> if s = [] then y else Some s)"

datatype js_error = Error jsstring | NonErrorValue

section \<open>Similarity scoring of the search service\<close>

definition simple_normalize :: "jsstring \<Rightarrow> jsstring" where
  \<comment> \<open>\<open>text.toLowerCase().trim().replace(/[^\w\s]/g, '').replace(/\s+/g, ' ')\<close>\<close>
  "simple_normalize text =
     collapse_spaces (filter (\<lambda>c. is_word c \<or> is_space c) (trim (toLowerCase text)))"

definition set_ratio :: "jsstring list \<Rightarrow> jsstring list \<Rightarrow> real" where
  \<comment> \<open>\<open>intersection.size / union.size\<close> of the two \<open>Set\<close>s built from the word arrays;
      a \<open>Set\<close> is a list without repetition, its size the length\<close>
  "set_ratio words1 words2 =
     (let set1 = remdups words1; set2 = remdups words2;
          intersection = filter (\<lambda>x. x \<in> set set2) set1;
          union = remdups (set1 @ set2)
      in real (length intersection) / real (length union))"

definition calculateSimpleSimilarity :: "jsstring \<Rightarrow> jsstring \<Rightarrow> real" where
  "calculateSimpleSimilarity text1 text2 =
     (if text1 = [] \<or> text2 = [] then 0
      else
        let norm1 = simple_normalize text1; norm2 = simple_normalize text2 in
        if norm1 = norm2 then 1
        else
          let words1 = filter (\<lambda>w. length w > 2) (split_on 32 norm1);
              words2 = filter (\<lambda>w. length w > 2) (split_on 32 norm2)
          in if words1 = [] \<or> words2 = [] then 0 else set_ratio words1 words2)"

definition detailed_normalize :: "jsstring \<Rightarrow> jsstring" where
  \<comment> \<open>lower case; the quotes \<open>\<guillemotleft> \<guillemotright> " \<close> (U+201E) and \<open>'\<close> removed; the dashes U+2014, U+2013 and
      \<open>-\<close> and the punctuation \<open>.,!?;:()\<close> replaced by a space; white space collapsed; trimmed\<close>
  "detailed_normalize text =
     trim (collapse_spaces
       (map (\<lambda>c. if c \<in> set (str ''.,!?;:()'') then 32 else c)
         (map (\<lambda>c. if c = 0x2014 \<or> c = 0x2013 \<or> c = 45 then 32 else c)
           (filter (\<lambda>c. \<not> (c = 0xAB \<or> c = 0xBB \<or> c = 34 \<or> c = 0x201E \<or> c = 39))
             (toLowerCase text)))))"

definition detailed_stop_words :: "jsstring list" where
  \<comment> \<open>the nineteen Russian function words of \<open>getWords\<close>, in the order of the source\<close>
  "detailed_stop_words =
     [[0x434, 0x43B, 0x44F], [0x43A, 0x430, 0x43A], [0x447, 0x442, 0x43E],
      [0x44D, 0x442, 0x43E], [0x432, 0x441, 0x435], [0x43E, 0x43D, 0x430],
      [0x43E, 0x43D, 0x438], [0x435, 0x433, 0x43E], [0x435, 0x451], [0x438, 0x445],
      [0x431, 0x44B, 0x43B], [0x431, 0x44B, 0x43B, 0x430], [0x431, 0x44B, 0x43B, 0x438],
      [0x43F, 0x440, 0x438], [0x43D, 0x430, 0x434], [0x43F, 0x43E, 0x434],
      [0x43F, 0x440, 0x43E], [0x431, 0x435, 0x437], [0x447, 0x435, 0x440, 0x435, 0x437]]"

definition getWords :: "jsstring \<Rightarrow> jsstring list" where
  "getWords text =
     filter (\<lambda>word. word \<notin> set detailed_stop_words)
       (filter (\<lambda>word. length word > 2) (split_on 32 text))"

definition calculateDetailedSimilarity :: "jsstring \<Rightarrow> jsstring \<Rightarrow> real" where
  "calculateDetailedSimilarity text1 text2 =
     (if text1 = [] \<or> text2 = [] then 0
      else
        let norm1 = detailed_normalize text1; norm2 = detailed_normalize text2;
            words1 = getWords norm1; words2 = getWords norm2
        in if words1 = [] \<or> words2 = [] then 0
           else
             let set1 = remdups words1; set2 = remdups words2;
                 intersection = filter (\<lambda>x. x \<in> set set2) set1;
                 jaccardSimilarity =
                   real (length intersection) / real (length (remdups (set1 @ set2)));
                 coverage1 = real (length intersection) / real (length set1);
                 coverage2 = real (length intersection) / real (length set2)
             in (jaccardSimilarity + min coverage1 coverage2) / 2)"

section \<open>The search service: hashing and the duplicate check\<close>

text \<open>
  The collaborators of the search service are parameters: the digest \<open>sha256\<close> of the
  crypto library, the successive draws of \<open>Math.random()\<close> (rendered as text, the
  \<open>k\<close>-th draw being \<open>random k\<close>; each function that draws returns the number of draws
  made so far), and the two queries sent to the search engine, which either throw or
  answer with a total and a list of hits.
\<close>

record platform =
  sha256 :: "jsstring \<Rightarrow> jsstring"
  random :: "nat \<Rightarrow> jsstring"

record NewsDocument =
  doc_id :: "jsstring option"
  title :: "jsstring option"
  content :: "jsstring option"
  source :: "jsstring option"
  created_at :: nat
  content_hash :: "jsstring option"
  title_hash :: "jsstring option"

record search_hit =
  hit_score :: "real option"
  hit_source :: NewsDocument

record search_response =
  totalHits :: nat
  hits :: "search_hit list"

record gateway =
  exact_search :: "jsstring \<Rightarrow> jsstring \<Rightarrow> js_error + search_response"
  mlt_search :: "jsstring option \<Rightarrow> jsstring option \<Rightarrow> js_error + search_response"

datatype method_kind = M_hash | M_text_similarity | M_none

record DuplicationResult =
  isDuplicate :: bool
  original :: "NewsDocument option"
  similarity_score :: "real option"
  dup_method :: method_kind
  candidates :: "NewsDocument list option"

definition generateContentHash :: "platform \<Rightarrow> nat \<Rightarrow> jsstring \<Rightarrow> jsstring \<times> nat" where
  "generateContentHash pf k text =
     (if text = [] \<or> length (trim text) < 10 then
        (sha256 pf (str ''EMPTY_CONTENT_'' @ random pf k), Suc k)
      else
        let normalized =
              trim (collapse_spaces (filter (\<lambda>c. is_word c \<or> is_space c) (toLowerCase text)))
        in if length normalized < 10 then
             (sha256 pf (str ''SHORT_CONTENT_'' @ random pf k), Suc k)
           else (sha256 pf normalized, k))"

definition not_duplicate :: DuplicationResult where
  \<comment> \<open>\<open>{ isDuplicate: false, method: 'none' }\<close>\<close>
  "not_duplicate =
     \<lparr>isDuplicate = False, original = None, similarity_score = None, dup_method = M_none,
      candidates = None\<rparr>"

definition simpleTitleSimilarity :: "jsstring \<Rightarrow> NewsDocument \<Rightarrow> real" where
  "simpleTitleSimilarity titleText orig =
     calculateSimpleSimilarity (trim (toLowerCase (or_empty (title orig))))
       (trim (toLowerCase titleText))"

definition detailedTitleSimilarity :: "jsstring \<Rightarrow> NewsDocument \<Rightarrow> real" where
  "detailedTitleSimilarity titleText orig =
     calculateDetailedSimilarity (trim (toLowerCase (or_empty (title orig))))
       (trim (toLowerCase titleText))"

definition combinedSimilarity :: "jsstring \<Rightarrow> jsstring \<Rightarrow> NewsDocument \<Rightarrow> real" where
  "combinedSimilarity titleText contentText orig =
     calculateDetailedSimilarity
       (trim (toLowerCase (or_empty (title orig))) @ [32] @ or_empty (content orig))
       (trim (toLowerCase titleText) @ [32] @ contentText)"

definition check_hash_hit ::
  "jsstring \<Rightarrow> jsstring \<Rightarrow> jsstring \<Rightarrow> search_hit \<Rightarrow> DuplicationResult option" where
  \<comment> \<open>the body of the loop over the hash matches: \<open>Some\<close> is its \<open>return\<close>\<close>
  "check_hash_hit titleText contentText titleHash matchedDoc =
     (let orig = hit_source matchedDoc;
          matchType_is_title_hash = (title_hash (hit_source matchedDoc) = Some titleHash);
          simple = simpleTitleSimilarity titleText orig;
          detailed = detailedTitleSimilarity titleText orig;
          combined = combinedSimilarity titleText contentText orig;
          isHashDuplicate = (matchType_is_title_hash \<and> Some titleHash = title_hash orig);
          isSimpleDuplicate = (simple > 0.9);
          isDetailedDuplicate = (detailed > 0.7);
          isCombinedDuplicate = (combined > 0.5 \<and> detailed > 0.5)
      in if isHashDuplicate \<or> isSimpleDuplicate \<or> isDetailedDuplicate \<or> isCombinedDuplicate
         then Some \<lparr>isDuplicate = True, original = Some orig,
                     similarity_score = Some (max (max simple detailed) combined),
                     dup_method = M_hash, candidates = None\<rparr>
         else None)"

function hash_loop ::
  "jsstring \<Rightarrow> jsstring \<Rightarrow> jsstring \<Rightarrow> search_response \<Rightarrow> nat \<Rightarrow>
   js_error + DuplicationResult option" where
  \<comment> \<open>\<open>for (let i = 0; i < Math.min(totalHits, 3); i++)\<close>; reading the source of a hit
      that the answer does not hold throws a TypeError\<close>
  "hash_loop titleText contentText titleHash resp i =
     (if i < min (totalHits resp) 3 then
        (if i < length (hits resp) then
           (case check_hash_hit titleText contentText titleHash (hits resp ! i) of
              Some r \<Rightarrow> Inr (Some r)
            | None \<Rightarrow> hash_loop titleText contentText titleHash resp (Suc i))
         else Inl (Error (str ''Cannot read properties of undefined'')))
      else Inr None)"
  by pat_completeness auto
termination
  by (relation "measure (\<lambda>(t, c, h, resp, i). min (totalHits resp) 3 - i)") auto

definition normalizedScore :: "search_hit \<Rightarrow> real" where
  \<comment> \<open>\<open>rawScore = (topMatch._score as number) || 0; similarityScore = rawScore / 10\<close>\<close>
  "normalizedScore topMatch = (case hit_score topMatch of None \<Rightarrow> 0 | Some x \<Rightarrow> x) / 10"

definition contentSimilarity :: "jsstring \<Rightarrow> jsstring \<Rightarrow> search_hit \<Rightarrow> real" where
  \<comment> \<open>the additional content validation of the top match\<close>
  "contentSimilarity titleText contentText topMatch =
     calculateDetailedSimilarity
       (or_empty (title (hit_source topMatch)) @ [32] @ or_empty (content (hit_source topMatch)))
       (titleText @ [32] @ contentText)"

definition semantic_stage ::
  "jsstring \<Rightarrow> jsstring \<Rightarrow> search_hit list \<Rightarrow> DuplicationResult" where
  \<comment> \<open>what follows the more-like-this query, given its hits\<close>
  "semantic_stage titleText contentText hs =
     (case hs of
        [] \<Rightarrow> not_duplicate
      | topMatch # rest \<Rightarrow>
          let similarityScore = normalizedScore topMatch
          in if similarityScore > 1.5 \<and> contentSimilarity titleText contentText topMatch > 0.5
             then \<lparr>isDuplicate = True, original = Some (hit_source topMatch),
                    similarity_score = Some similarityScore, dup_method = M_text_similarity,
                    candidates = Some (map hit_source rest)\<rparr>
             else \<lparr>isDuplicate = False, original = None, similarity_score = None,
                    dup_method = M_none, candidates = Some (map hit_source hs)\<rparr>)"

definition checkForDuplicates_try ::
  "platform \<Rightarrow> gateway \<Rightarrow> nat \<Rightarrow> NewsDocument \<Rightarrow> js_error + DuplicationResult" where
  \<comment> \<open>the \<open>try\<close> block\<close>
  "checkForDuplicates_try pf gw k news =
     (let titleText = or_empty (title news);
          contentText = or_empty (content news);
          combinedText = titleText @ [32] @ contentText;
          hasEnoughContent = (length (trim combinedText) \<ge> 20);
          hash_result =
            (if hasEnoughContent then
               (let (contentHash, k1) = generateContentHash pf k combinedText;
                    (titleHash, k2) = generateContentHash pf k1 titleText
                in case exact_search gw contentHash titleHash of
                     Inl e \<Rightarrow> Inl e
                   | Inr exactMatch \<Rightarrow>
                       (if totalHits exactMatch > 0
                        then hash_loop titleText contentText titleHash exactMatch 0
                        else Inr None))
             else Inr None)
      in case hash_result of
           Inl e \<Rightarrow> Inl e
         | Inr (Some r) \<Rightarrow> Inr r
         | Inr None \<Rightarrow>
             (case mlt_search gw (title news) (content news) of
                Inl e \<Rightarrow> Inl e
              | Inr similaritySearch \<Rightarrow>
                  Inr (semantic_stage titleText contentText (hits similaritySearch))))"

definition checkForDuplicates ::
  "platform \<Rightarrow> gateway \<Rightarrow> nat \<Rightarrow> NewsDocument \<Rightarrow> DuplicationResult" where
  \<comment> \<open>every error of the \<open>try\<close> block is caught and answered with "no duplicate"\<close>
  "checkForDuplicates pf gw k news =
     (case checkForDuplicates_try pf gw k news of Inl e \<Rightarrow> not_duplicate | Inr r \<Rightarrow> r)"

definition draws_of_check :: "platform \<Rightarrow> nat \<Rightarrow> NewsDocument \<Rightarrow> nat" where
  \<comment> \<open>the number of random draws made once \<open>checkForDuplicates\<close> has returned\<close>
  "draws_of_check pf k news =
     (let titleText = or_empty (title news);
          combinedText = titleText @ [32] @ or_empty (content news)
      in if length (trim combinedText) \<ge> 20
         then snd (generateContentHash pf (snd (generateContentHash pf k combinedText)) titleText)
         else k)"

section \<open>The duplicate decision of the search service\<close>

text \<open>
  The criteria of the hash stage as the specification words them, and the result it
  announces for a qualifying hit.
\<close>

definition hash_hit_qualifies :: "jsstring \<Rightarrow> jsstring \<Rightarrow> jsstring \<Rightarrow> search_hit \<Rightarrow> bool" where
  "hash_hit_qualifies titleText contentText titleHash h \<longleftrightarrow>
     title_hash (hit_source h) = Some titleHash
     \<or> simpleTitleSimilarity titleText (hit_source h) > 0.9
     \<or> detailedTitleSimilarity titleText (hit_source h) > 0.7
     \<or> (combinedSimilarity titleText contentText (hit_source h) > 0.5
         \<and> detailedTitleSimilarity titleText (hit_source h) > 0.5)"

definition hash_result :: "jsstring \<Rightarrow> jsstring \<Rightarrow> search_hit \<Rightarrow> DuplicationResult" where
  "hash_result titleText contentText h =
     \<lparr>isDuplicate = True, original = Some (hit_source h),
      similarity_score =
        Some (Max {simpleTitleSimilarity titleText (hit_source h),
                   detailedTitleSimilarity titleText (hit_source h),
                   combinedSimilarity titleText contentText (hit_source h)}),
      dup_method = M_hash, candidates = None\<rparr>"


text \<open>Concrete inputs on which the theorems below are exercised.\<close>

definition ex_platform :: platform where
  "ex_platform = \<lparr>sha256 = (\<lambda>s. s), random = (\<lambda>k. str ''0.5'')\<rparr>"

definition ex_doc :: "string \<Rightarrow> string option \<Rightarrow> string option \<Rightarrow> NewsDocument" where
  "ex_doc t c h = \<lparr>doc_id = None, title = Some (str t), content = map_option str c, source = None,
     created_at = 0, content_hash = None, title_hash = map_option str h\<rparr>"

definition ex_news :: NewsDocument where
  "ex_news = ex_doc ''Aaaaaaaaaa bbbbbbbbbb'' (Some ''dddddddddd'') None"

definition ex_hit_far :: search_hit where
  "ex_hit_far = \<lparr>hit_score = Some 1, hit_source = ex_doc ''zzz'' None (Some ''x'')\<rparr>"

definition ex_hit_near :: search_hit where
  "ex_hit_near = \<lparr>hit_score = Some 1,
     hit_source = ex_doc ''aaaaaaaaaa bbbbbbbbbb cccccccccc'' None (Some ''y'')\<rparr>"

definition ex_gateway :: "search_hit list \<Rightarrow> search_hit list \<Rightarrow> gateway" where
  "ex_gateway hs ms =
     \<lparr>exact_search = (\<lambda>c t. Inr \<lparr>totalHits = length hs, hits = hs\<rparr>),
      mlt_search = (\<lambda>t c. Inr \<lparr>totalHits = length ms, hits = ms\<rparr>)\<rparr>"






declare hash_loop.simps [simp del]

lemma check_hash_hit_iff:
  "check_hash_hit t c h x =
     (if hash_hit_qualifies t c h x then Some (hash_result t c x) else None)"
  by (auto simp: check_hash_hit_def hash_hit_qualifies_def hash_result_def Let_def max.commute max.left_commute)

lemma hash_loop_step:
  assumes "i < min (totalHits resp) 3" "i < length (hits resp)"
  shows "hash_loop t c h resp i =
     (if hash_hit_qualifies t c h (hits resp ! i) then Inr (Some (hash_result t c (hits resp ! i)))
      else hash_loop t c h resp (Suc i))"
  by (subst hash_loop.simps) (simp only: assms if_True check_hash_hit_iff split: if_split, simp)

lemma hash_loop_stop:
  assumes "\<not> i < min (totalHits resp) 3"
  shows "hash_loop t c h resp i = Inr None"
  by (subst hash_loop.simps) (simp only: assms if_False)

lemma hash_loop_first:
  assumes "j < min (totalHits resp) 3" "j < length (hits resp)"
    and "hash_hit_qualifies t c h (hits resp ! j)"
    and "\<forall>l. i \<le> l \<and> l < j \<longrightarrow> \<not> hash_hit_qualifies t c h (hits resp ! l)"
    and "i \<le> j"
  shows "hash_loop t c h resp i = Inr (Some (hash_result t c (hits resp ! j)))"
  using assms(4,5)
proof (induction "j - i" arbitrary: i)
  case 0
  then have "i = j" by simp
  then show ?case using assms(1-3) by (simp only: hash_loop_step if_True)
next
  case (Suc n)
  then have lt: "i < j" by linarith
  with Suc.prems have nq: "\<not> hash_hit_qualifies t c h (hits resp ! i)" by simp
  have b: "i < min (totalHits resp) 3" "i < length (hits resp)"
    using lt assms(1,2) by linarith+
  have "n = j - Suc i" "Suc i \<le> j" using Suc.hyps(2) lt by linarith+
  moreover have "\<forall>l. Suc i \<le> l \<and> l < j \<longrightarrow> \<not> hash_hit_qualifies t c h (hits resp ! l)"
    using Suc.prems(1) by simp
  ultimately have "hash_loop t c h resp (Suc i) = Inr (Some (hash_result t c (hits resp ! j)))"
    using Suc.hyps(1)[of "Suc i"] by blast
  then show ?case using nq by (simp only: hash_loop_step[OF b] if_False)
qed

lemma hash_loop_none:
  assumes "min (totalHits resp) 3 \<le> length (hits resp)"
    and "\<forall>l. i \<le> l \<and> l < min (totalHits resp) 3 \<longrightarrow> \<not> hash_hit_qualifies t c h (hits resp ! l)"
  shows "hash_loop t c h resp i = Inr None"
  using assms(2)
proof (induction "min (totalHits resp) 3 - i" arbitrary: i)
  case 0
  then have h: "\<not> i < min (totalHits resp) 3" by linarith
  then show ?case by (rule hash_loop_stop)
next
  case (Suc n)
  then have lt: "i < min (totalHits resp) 3" by linarith
  then have b: "i < length (hits resp)" using assms(1) by linarith
  have nq: "\<not> hash_hit_qualifies t c h (hits resp ! i)" using lt Suc.prems by blast
  have "n = min (totalHits resp) 3 - Suc i" using Suc.hyps(2) by linarith
  moreover have "\<forall>l. Suc i \<le> l \<and> l < min (totalHits resp) 3 \<longrightarrow> \<not> hash_hit_qualifies t c h (hits resp ! l)"
    using Suc.prems by simp
  ultimately have "hash_loop t c h resp (Suc i) = Inr None"
    using Suc.hyps(1)[of "Suc i"] by blast
  then show ?case using nq by (simp only: hash_loop_step[OF lt b] if_False)
qed




lemmas string_defs = str_def toLowerCase_def lower_unit_def trim_def is_space_def is_word_def
  or_empty_def

lemma ex_news_title: "or_empty (title ex_news) = str ''Aaaaaaaaaa bbbbbbbbbb''"
  and ex_news_content: "or_empty (content ex_news) = str ''dddddddddd''"
  by (simp_all add: ex_news_def ex_doc_def or_empty_def)

lemmas sim_defs = calculateDetailedSimilarity_def calculateSimpleSimilarity_def Let_def
  detailed_normalize_def getWords_def detailed_stop_words_def simple_normalize_def set_ratio_def
  simpleTitleSimilarity_def detailedTitleSimilarity_def combinedSimilarity_def

lemma ex_near_scores:
  "simpleTitleSimilarity (or_empty (title ex_news)) (hit_source ex_hit_near) = 2/3"
  "detailedTitleSimilarity (or_empty (title ex_news)) (hit_source ex_hit_near) = 2/3"
  "combinedSimilarity (or_empty (title ex_news)) (or_empty (content ex_news)) (hit_source ex_hit_near) = 7/12"
  by (simp_all add: sim_defs string_defs ex_news_def ex_hit_near_def ex_doc_def)

lemma ex_far_scores:
  "simpleTitleSimilarity (or_empty (title ex_news)) (hit_source ex_hit_far) = 0"
  "detailedTitleSimilarity (or_empty (title ex_news)) (hit_source ex_hit_far) = 0"
  "combinedSimilarity (or_empty (title ex_news)) (or_empty (content ex_news)) (hit_source ex_hit_far) = 0"
  by (simp_all add: sim_defs string_defs ex_news_def ex_hit_far_def ex_doc_def)


lemma ex_hashes:
  "generateContentHash ex_platform 0 (or_empty (title ex_news) @ [32] @ or_empty (content ex_news))
     = (str ''aaaaaaaaaa bbbbbbbbbb dddddddddd'', 0)"
  "generateContentHash ex_platform 0 (or_empty (title ex_news)) = (str ''aaaaaaaaaa bbbbbbbbbb'', 0)"
  by (simp_all add: generateContentHash_def Let_def string_defs ex_news_def ex_doc_def ex_platform_def)

lemma ex_enough: "20 \<le> length (trim (or_empty (title ex_news) @ [32] @ or_empty (content ex_news)))"
  by (simp add: string_defs ex_news_def ex_doc_def)

lemma ex_qualifies:
  "\<not> hash_hit_qualifies (or_empty (title ex_news)) (or_empty (content ex_news))
       (str ''aaaaaaaaaa bbbbbbbbbb'') ex_hit_far"
  "hash_hit_qualifies (or_empty (title ex_news)) (or_empty (content ex_news))
       (str ''aaaaaaaaaa bbbbbbbbbb'') ex_hit_near"
   apply (simp add: hash_hit_qualifies_def ex_far_scores)
   apply (simp add: ex_hit_far_def ex_doc_def str_def)
  apply (simp add: hash_hit_qualifies_def ex_near_scores)
  done

lemma checkForDuplicates_hash_hit:
  fixes news :: NewsDocument
  defines "t \<equiv> or_empty (title news)" and "c \<equiv> or_empty (content news)"
  assumes enough: "20 \<le> length (trim (t @ [32] @ c))"
    and ch: "generateContentHash pf k (t @ [32] @ c) = (contentHash, k1)"
    and th: "generateContentHash pf k1 t = (titleHash, k2)"
    and search: "exact_search gw contentHash titleHash = Inr resp"
    and wf: "min (totalHits resp) 3 \<le> length (hits resp)"
    and i: "i < min (totalHits resp) 3" "hash_hit_qualifies t c titleHash (hits resp ! i)"
      "\<forall>j<i. \<not> hash_hit_qualifies t c titleHash (hits resp ! j)"
  shows "checkForDuplicates pf gw k news = hash_result t c (hits resp ! i)"
proof -
  have pos: "0 < totalHits resp" using i(1) by linarith
  have il: "i < length (hits resp)" using i(1) wf by linarith
  have "hash_loop t c titleHash resp 0 = Inr (Some (hash_result t c (hits resp ! i)))"
    using i il by (intro hash_loop_first) simp_all
  then have "checkForDuplicates_try pf gw k news = Inr (hash_result t c (hits resp ! i))"
    using enough ch th search pos unfolding t_def c_def
    by (simp add: checkForDuplicates_try_def Let_def)
  then show ?thesis by (simp add: checkForDuplicates_def)
qed

text \<open>
  Claim C1.  In the hash stage, the first of the (at most three) leading hash hits that
  meets one of the four criteria (its stored title hash equals the incoming title hash; simple
  title similarity above 0.90; detailed title similarity above 0.70; combined similarity
  above 0.50 together with detailed title similarity above 0.50) makes the check return a
  duplicate with method \<open>hash\<close> and the maximum of the three similarities as score; when
  none of these hits meets a criterion, the check continues with the semantic stage.
  The answer of the search engine is assumed to hold the hits it counts, up to three.
\<close>

theorem hash_stage_decision:
  fixes news :: NewsDocument
  defines "t \<equiv> or_empty (title news)" and "c \<equiv> or_empty (content news)"
  assumes enough: "20 \<le> length (trim (t @ [32] @ c))"
    and ch: "generateContentHash pf k (t @ [32] @ c) = (contentHash, k1)"
    and th: "generateContentHash pf k1 t = (titleHash, k2)"
    and search: "exact_search gw contentHash titleHash = Inr resp"
    and wf: "min (totalHits resp) 3 \<le> length (hits resp)"
  shows "(\<forall>i. i < min (totalHits resp) 3 \<and> hash_hit_qualifies t c titleHash (hits resp ! i) \<and>
              (\<forall>j<i. \<not> hash_hit_qualifies t c titleHash (hits resp ! j)) \<longrightarrow>
            checkForDuplicates pf gw k news =
              \<lparr>isDuplicate = True, original = Some (hit_source (hits resp ! i)),
               similarity_score =
                 Some (Max {simpleTitleSimilarity t (hit_source (hits resp ! i)),
                            detailedTitleSimilarity t (hit_source (hits resp ! i)),
                            combinedSimilarity t c (hit_source (hits resp ! i))}),
               dup_method = M_hash, candidates = None\<rparr>)
       \<and> ((\<forall>i<min (totalHits resp) 3. \<not> hash_hit_qualifies t c titleHash (hits resp ! i)) \<longrightarrow>
            checkForDuplicates pf gw k news =
              (case mlt_search gw (title news) (content news) of
                 Inl e \<Rightarrow> not_duplicate
               | Inr similaritySearch \<Rightarrow> semantic_stage t c (hits similaritySearch)))"
proof (intro conjI allI impI)
  fix i
  assume a: "i < min (totalHits resp) 3 \<and> hash_hit_qualifies t c titleHash (hits resp ! i) \<and>
             (\<forall>j<i. \<not> hash_hit_qualifies t c titleHash (hits resp ! j))"
  have "checkForDuplicates pf gw k news = hash_result t c (hits resp ! i)"
    using checkForDuplicates_hash_hit[of news pf k contentHash k1 titleHash k2 gw resp i]
      enough ch th search wf a unfolding t_def c_def by blast
  then show "checkForDuplicates pf gw k news =
              \<lparr>isDuplicate = True, original = Some (hit_source (hits resp ! i)),
               similarity_score =
                 Some (Max {simpleTitleSimilarity t (hit_source (hits resp ! i)),
                            detailedTitleSimilarity t (hit_source (hits resp ! i)),
                            combinedSimilarity t c (hit_source (hits resp ! i))}),
               dup_method = M_hash, candidates = None\<rparr>"
    by (simp add: hash_result_def)
next
  assume a: "\<forall>i<min (totalHits resp) 3. \<not> hash_hit_qualifies t c titleHash (hits resp ! i)"
  have "hash_loop t c titleHash resp 0 = Inr None"
    using wf a by (intro hash_loop_none) simp_all
  then have "checkForDuplicates_try pf gw k news =
      (case mlt_search gw (title news) (content news) of
         Inl e \<Rightarrow> Inl e
       | Inr similaritySearch \<Rightarrow> Inr (semantic_stage t c (hits similaritySearch)))"
    using enough ch th search unfolding t_def c_def
    by (simp add: checkForDuplicates_try_def Let_def)
  then show "checkForDuplicates pf gw k news =
              (case mlt_search gw (title news) (content news) of
                 Inl e \<Rightarrow> not_duplicate
               | Inr similaritySearch \<Rightarrow> semantic_stage t c (hits similaritySearch))"
    by (simp add: checkForDuplicates_def split: sum.splits)
qed


theorem hash_stage_decision_witness:
  "checkForDuplicates ex_platform (ex_gateway [ex_hit_far, ex_hit_near] []) 0 ex_news =
     \<lparr>isDuplicate = True, original = Some (hit_source ex_hit_near),
      similarity_score = Some (2 / 3), dup_method = M_hash, candidates = None\<rparr>
   \<and> checkForDuplicates ex_platform (ex_gateway [ex_hit_far] []) 0 ex_news = not_duplicate"
proof
  have search: "exact_search (ex_gateway [ex_hit_far, ex_hit_near] [])
       (str ''aaaaaaaaaa bbbbbbbbbb dddddddddd'')
       (str ''aaaaaaaaaa bbbbbbbbbb'') = Inr \<lparr>totalHits = 2, hits = [ex_hit_far, ex_hit_near]\<rparr>"
    by (simp add: ex_gateway_def)
  have wf: "min (totalHits \<lparr>totalHits = 2, hits = [ex_hit_far, ex_hit_near]\<rparr>) 3
      \<le> length (hits \<lparr>totalHits = 2, hits = [ex_hit_far, ex_hit_near]\<rparr>)"
    by simp
  have first: "(1::nat) < min (totalHits \<lparr>totalHits = 2, hits = [ex_hit_far, ex_hit_near]\<rparr>) 3 \<and>
      hash_hit_qualifies (or_empty (title ex_news)) (or_empty (content ex_news))
        (str ''aaaaaaaaaa bbbbbbbbbb'') (hits \<lparr>totalHits = 2, hits = [ex_hit_far, ex_hit_near]\<rparr> ! 1) \<and>
      (\<forall>j<1. \<not> hash_hit_qualifies (or_empty (title ex_news)) (or_empty (content ex_news))
        (str ''aaaaaaaaaa bbbbbbbbbb'') (hits \<lparr>totalHits = 2, hits = [ex_hit_far, ex_hit_near]\<rparr> ! j))"
    using ex_qualifies by simp
  show "checkForDuplicates ex_platform (ex_gateway [ex_hit_far, ex_hit_near] []) 0 ex_news =
     \<lparr>isDuplicate = True, original = Some (hit_source ex_hit_near),
      similarity_score = Some (2 / 3), dup_method = M_hash, candidates = None\<rparr>"
    using hash_stage_decision[OF ex_enough ex_hashes(1) ex_hashes(2) search wf,
        THEN conjunct1, THEN spec, THEN mp, OF first]
    by (simp add: ex_near_scores)
next
  have search: "exact_search (ex_gateway [ex_hit_far] []) (str ''aaaaaaaaaa bbbbbbbbbb dddddddddd'')
       (str ''aaaaaaaaaa bbbbbbbbbb'') = Inr \<lparr>totalHits = 1, hits = [ex_hit_far]\<rparr>"
    by (simp add: ex_gateway_def)
  have wf: "min (totalHits \<lparr>totalHits = 1, hits = [ex_hit_far]\<rparr>) 3
      \<le> length (hits \<lparr>totalHits = 1, hits = [ex_hit_far]\<rparr>)"
    by simp
  have none: "\<forall>i<min (totalHits \<lparr>totalHits = 1, hits = [ex_hit_far]\<rparr>) 3.
      \<not> hash_hit_qualifies (or_empty (title ex_news)) (or_empty (content ex_news))
        (str ''aaaaaaaaaa bbbbbbbbbb'') (hits \<lparr>totalHits = 1, hits = [ex_hit_far]\<rparr> ! i)"
    using ex_qualifies(1) by simp
  show "checkForDuplicates ex_platform (ex_gateway [ex_hit_far] []) 0 ex_news = not_duplicate"
    using hash_stage_decision[OF ex_enough ex_hashes(1) ex_hashes(2) search wf,
        THEN conjunct2, THEN mp, OF none]
    by (simp add: ex_gateway_def semantic_stage_def)
qed





section \<open>The ingest-time deduplication service\<close>

text \<open>
  \<open>processNews\<close> works on two stores: the document store (the collection of normalised
  articles) and the search index.  The state records both and counts the calls made to each
  collaborator.  A write to the document store fails when the schema rejects the record
  (a required path is missing or empty) or when the store itself fails; the latter, and a
  failure of the indexing request, are given by the environment, per call.  The message of
  the validation error, which the library composes from the rejected paths, is given by
  the environment as well.  The optional
  fields that are only copied (theme, topics, tags, entities, image, duplicate hint) are
  left out of the records.
\<close>

datatype published = PubText jsstring | PubDate nat

record newsData =
  nd_newsRawId :: "jsstring option"
  nd_sourceId :: "jsstring option"
  nd_externalId :: "jsstring option"
  nd_source :: "jsstring option"
  nd_url :: "jsstring option"
  nd_title :: "jsstring option"
  nd_lang :: "jsstring option"
  nd_publishedAt :: "jsstring option"
  nd_created_at :: "nat option"
  nd_content :: "jsstring option"
  nd_description :: "jsstring option"
  nd_summaryShort :: "jsstring option"
  nd_summaryShortOriginal :: "jsstring option"
  nd_titleCanonicalOriginal :: "jsstring option"
  nd_score :: "real option"

record normalizedNewsData =
  newsRawId :: "jsstring option"
  sourceId :: "jsstring option"
  externalId :: "jsstring option"
  source_name :: "jsstring option"
  article_url :: "jsstring option"
  titleCanonical :: "jsstring option"
  lang :: "jsstring option"
  publishedAt :: "published option"
  summaryShort :: "jsstring option"
  summaryShortOriginal :: "jsstring option"
  titleCanonicalOriginal :: "jsstring option"
  score :: "real option"

record NewsNormalized = normalizedNewsData +
  news_id :: nat
  createdAt :: nat

record world =
  w_pf :: platform
  w_gw :: gateway
  now :: nat
  validation_message :: "normalizedNewsData \<Rightarrow> jsstring"
  create_fault :: "nat \<Rightarrow> js_error option"
  index_fault :: "nat \<Rightarrow> js_error option"

record system =
  documents :: "NewsNormalized list"
  indexed :: "NewsDocument list"
  creates :: nat
  indexings :: nat
  checks :: nat
  draws :: nat

datatype reason =
    Confirmed_duplicate method_kind "real option"
  | New_article_saved_successfully
  | Saved_to_MongoDB_OpenSearch_failed
  | Save_failed jsstring

record ProcessResult =
  saved :: bool
  reason :: reason
  pr_original :: "NewsDocument option"

definition present :: "jsstring option \<Rightarrow> bool" where
  \<comment> \<open>a required path of the schema: defined and, for a string, not empty\<close>
  "present x \<longleftrightarrow> (case x of None \<Rightarrow> False | Some s \<Rightarrow> s \<noteq> [])"

definition schema_valid :: "normalizedNewsData \<Rightarrow> bool" where
  \<comment> \<open>the paths marked \<open>required: true\<close> in \<open>NewsNormalizedSchema\<close>\<close>
  "schema_valid d \<longleftrightarrow>
     present (newsRawId d) \<and> present (sourceId d) \<and> present (externalId d) \<and>
     present (source_name d) \<and> present (article_url d) \<and> present (titleCanonical d) \<and>
     present (lang d) \<and> publishedAt d \<noteq> None \<and> present (summaryShort d)"

definition stored_record :: "world \<Rightarrow> system \<Rightarrow> normalizedNewsData \<Rightarrow> NewsNormalized" where
  \<comment> \<open>the document the store makes of a record: a fresh identifier and the time stamp\<close>
  "stored_record w st d =
     normalizedNewsData.extend d \<lparr>news_id = creates st, createdAt = now w\<rparr>"

definition NewsNormalized_create ::
  "world \<Rightarrow> system \<Rightarrow> normalizedNewsData \<Rightarrow> (js_error + NewsNormalized) \<times> system" where
  \<comment> \<open>\<open>NewsNormalized.create(data)\<close>: validation, then the insertion\<close>
  "NewsNormalized_create w st d =
     (let st1 = st\<lparr>creates := Suc (creates st)\<rparr> in
      if \<not> schema_valid d then (Inl (Error (validation_message w d)), st1)
      else
        (case create_fault w (creates st) of
           Some e \<Rightarrow> (Inl e, st1)
         | None \<Rightarrow>
             (let savedNews = stored_record w st d
              in (Inr savedNews, st1\<lparr>documents := documents st1 @ [savedNews]\<rparr>))))"

definition id_string :: "nat \<Rightarrow> jsstring" where
  \<comment> \<open>\<open>savedNews._id.toString()\<close>; the identifier in unary, which is injective\<close>
  "id_string n = replicate (Suc n) 49"

definition index_document :: "platform \<Rightarrow> nat \<Rightarrow> NewsDocument \<Rightarrow> NewsDocument \<times> nat" where
  \<comment> \<open>the document that \<open>indexNews\<close> sends: the article with its two hashes\<close>
  "index_document p k news =
     (let (contentHash, k1) =
            generateContentHash p k (or_empty (title news) @ [32] @ or_empty (content news));
          (titleHash, k2) = generateContentHash p k1 (or_empty (title news))
      in (news\<lparr>content_hash := Some contentHash, title_hash := Some titleHash\<rparr>, k2))"

definition indexNews ::
  "world \<Rightarrow> system \<Rightarrow> NewsDocument \<Rightarrow> (js_error + unit) \<times> system" where
  "indexNews w st news =
     (let (document, k2) = index_document (w_pf w) (draws st) news;
          st1 = st\<lparr>draws := k2, indexings := Suc (indexings st)\<rparr>
      in case index_fault w (indexings st) of
           Some e \<Rightarrow> (Inl e, st1)
         | None \<Rightarrow> (Inr (), st1\<lparr>indexed := indexed st1 @ [document]\<rparr>))"

definition newsDocument_of :: "world \<Rightarrow> newsData \<Rightarrow> NewsDocument" where
  "newsDocument_of w nd =
     \<lparr>doc_id = None,
      title = Some (or_empty (nd_title nd)),
      content = Some (or_empty (or_str (or_str (nd_content nd) (nd_description nd)) (nd_summaryShort nd))),
      source = nd_source nd,
      created_at = (case nd_created_at nd of Some d \<Rightarrow> d | None \<Rightarrow> now w),
      content_hash = None, title_hash = None\<rparr>"

definition published_of :: "newsData \<Rightarrow> published option" where
  \<comment> \<open>\<open>newsData.publishedAt || newsData.created_at\<close>\<close>
  "published_of nd =
     (case or_str (nd_publishedAt nd) None of
        Some s \<Rightarrow> Some (PubText s)
      | None \<Rightarrow> map_option PubDate (nd_created_at nd))"

definition normalizedNewsData_of :: "newsData \<Rightarrow> normalizedNewsData" where
  \<comment> \<open>the record built in the \<open>try\<close> block\<close>
  "normalizedNewsData_of nd =
     \<lparr>newsRawId = nd_newsRawId nd, sourceId = nd_sourceId nd, externalId = nd_externalId nd,
      source_name = nd_source nd, article_url = nd_url nd, titleCanonical = nd_title nd,
      lang = nd_lang nd, publishedAt = published_of nd,
      summaryShort = or_str (nd_description nd) (nd_content nd),
      summaryShortOriginal = nd_summaryShortOriginal nd,
      titleCanonicalOriginal = nd_titleCanonicalOriginal nd, score = nd_score nd\<rparr>"

definition fallbackNewsData_of :: "newsData \<Rightarrow> normalizedNewsData" where
  \<comment> \<open>the record built in the \<open>catch\<close> block: the last three paths are not set\<close>
  "fallbackNewsData_of nd =
     (normalizedNewsData_of nd)
       \<lparr>summaryShortOriginal := None, titleCanonicalOriginal := None, score := None\<rparr>"

definition confirmed :: "DuplicationResult \<Rightarrow> bool" where
  \<comment> \<open>\<open>duplicationResult.similarity_score && duplicationResult.similarity_score >= 1.5\<close>\<close>
  "confirmed r \<longleftrightarrow> (case similarity_score r of None \<Rightarrow> False | Some x \<Rightarrow> x \<noteq> 0 \<and> x \<ge> 1.5)"

definition after_check :: "world \<Rightarrow> system \<Rightarrow> newsData \<Rightarrow> system" where
  \<comment> \<open>the state once \<open>checkForDuplicates\<close> has returned\<close>
  "after_check w st nd =
     st\<lparr>checks := Suc (checks st),
        draws := draws_of_check (w_pf w) (draws st) (newsDocument_of w nd)\<rparr>"

definition processNews_try ::
  "world \<Rightarrow> system \<Rightarrow> newsData \<Rightarrow> (js_error + ProcessResult) \<times> system" where
  \<comment> \<open>the \<open>try\<close> block; \<open>Inl\<close> is an exception that reaches the \<open>catch\<close>\<close>
  "processNews_try w st nd =
     (let titleText = or_empty (nd_title nd) in
      if trim titleText = [] then (Inl (Error (str ''Article has no title'')), st)
      else
        let newsDocument = newsDocument_of w nd;
            duplicationResult = checkForDuplicates (w_pf w) (w_gw w) (draws st) newsDocument;
            st1 = after_check w st nd
        in if isDuplicate duplicationResult \<and> confirmed duplicationResult then
             (Inr \<lparr>saved = False,
                   reason = Confirmed_duplicate (dup_method duplicationResult)
                              (similarity_score duplicationResult),
                   pr_original = original duplicationResult\<rparr>, st1)
           else
             (case NewsNormalized_create w st1 (normalizedNewsData_of nd) of
                (Inl e, st2) \<Rightarrow> (Inl e, st2)
              | (Inr savedNews, st2) \<Rightarrow>
                  (case indexNews w st2
                          (newsDocument\<lparr>doc_id := Some (id_string (news_id savedNews))\<rparr>) of
                     (Inl e, st3) \<Rightarrow> (Inl e, st3)
                   | (Inr u, st3) \<Rightarrow>
                       (Inr \<lparr>saved = True, reason = New_article_saved_successfully,
                             pr_original = None\<rparr>, st3))))"

definition processNews :: "world \<Rightarrow> system \<Rightarrow> newsData \<Rightarrow> ProcessResult \<times> system" where
  "processNews w st nd =
     (case processNews_try w st nd of
        (Inr r, st1) \<Rightarrow> (r, st1)
      | (Inl error, st1) \<Rightarrow>
          (case NewsNormalized_create w st1 (fallbackNewsData_of nd) of
             (Inr savedNews, st2) \<Rightarrow>
               (\<lparr>saved = True, reason = Saved_to_MongoDB_OpenSearch_failed,
                 pr_original = None\<rparr>, st2)
           | (Inl fallbackError, st2) \<Rightarrow>
               (\<lparr>saved = False,
                 reason = Save_failed (case fallbackError of
                                         Error message \<Rightarrow> message
                                       | NonErrorValue \<Rightarrow> str ''Unknown error''),
                 pr_original = None\<rparr>, st2)))"

definition rejects :: "DuplicationResult \<Rightarrow> bool" where
  \<comment> \<open>the duplicate check reports a duplicate with a score of at least 1.5\<close>
  "rejects r \<longleftrightarrow> isDuplicate r \<and> (\<exists>x. similarity_score r = Some x \<and> x \<ge> 1.5)"

definition the_check :: "world \<Rightarrow> system \<Rightarrow> newsData \<Rightarrow> DuplicationResult" where
  \<comment> \<open>what the duplicate check of \<open>processNews\<close> reports\<close>
  "the_check w st nd = checkForDuplicates (w_pf w) (w_gw w) (draws st) (newsDocument_of w nd)"

definition ex_world ::
  "gateway \<Rightarrow> (nat \<Rightarrow> js_error option) \<Rightarrow> (nat \<Rightarrow> js_error option) \<Rightarrow> world" where
  "ex_world g cfault ifault =
     \<lparr>w_pf = ex_platform, w_gw = g, now = 1000,
      validation_message =
        (\<lambda>d. str ''NewsNormalized validation failed: summaryShort: Path `summaryShort` is required.''),
      create_fault = cfault, index_fault = ifault\<rparr>"

definition ex_gateway_down :: gateway where
  \<comment> \<open>the search engine cannot be reached\<close>
  "ex_gateway_down =
     \<lparr>exact_search = (\<lambda>c t. Inl (Error (str ''connect ECONNREFUSED''))),
      mlt_search = (\<lambda>t c. Inl (Error (str ''connect ECONNREFUSED'')))\<rparr>"

definition no_fault :: "nat \<Rightarrow> js_error option" where
  "no_fault n = None"

definition always_fault :: "nat \<Rightarrow> js_error option" where
  "always_fault n = Some (Error (str ''connect ECONNREFUSED''))"

definition second_fault :: "nat \<Rightarrow> js_error option" where
  \<comment> \<open>the first write succeeds, every later one fails\<close>
  "second_fault n = (if n = 0 then None else Some (Error (str ''write failed'')))"

definition ex_system :: system where
  "ex_system = \<lparr>documents = [], indexed = [], creates = 0, indexings = 0, checks = 0, draws = 0\<rparr>"

definition ex_newsData :: "string \<Rightarrow> string \<Rightarrow> newsData" where
  "ex_newsData t c =
     \<lparr>nd_newsRawId = Some (str ''r1''), nd_sourceId = Some (str ''s1''),
      nd_externalId = Some (str ''e1''), nd_source = Some (str ''feed''),
      nd_url = Some (str ''http://a/1''), nd_title = Some (str t), nd_lang = Some (str ''en''),
      nd_publishedAt = None, nd_created_at = Some 900, nd_content = Some (str c),
      nd_description = None, nd_summaryShort = None, nd_summaryShortOriginal = None,
      nd_titleCanonicalOriginal = None, nd_score = None\<rparr>"




lemma rejects_iff: "rejects r \<longleftrightarrow> isDuplicate r \<and> confirmed r"
  by (auto simp: rejects_def confirmed_def split: option.splits)

lemma create_eq:
  "NewsNormalized_create w st d =
     (if \<not> schema_valid d then
        (Inl (Error (validation_message w d)), st\<lparr>creates := Suc (creates st)\<rparr>)
      else case create_fault w (creates st) of
        Some e \<Rightarrow> (Inl e, st\<lparr>creates := Suc (creates st)\<rparr>)
      | None \<Rightarrow> (Inr (stored_record w st d),
                  st\<lparr>creates := Suc (creates st),
                     documents := documents st @ [stored_record w st d]\<rparr>))"
  by (simp add: NewsNormalized_create_def Let_def split: option.splits)

lemma indexNews_eq:
  "indexNews w st news =
     (case index_fault w (indexings st) of
        Some e \<Rightarrow> (Inl e, st\<lparr>draws := snd (index_document (w_pf w) (draws st) news),
                             indexings := Suc (indexings st)\<rparr>)
      | None \<Rightarrow> (Inr (), st\<lparr>draws := snd (index_document (w_pf w) (draws st) news),
                             indexings := Suc (indexings st),
                             indexed := indexed st @ [fst (index_document (w_pf w) (draws st) news)]\<rparr>))"
  by (simp add: indexNews_def Let_def split: prod.splits option.splits)


lemma stored_record_fields:
  "news_id (stored_record w st d) = creates st"
  "createdAt (stored_record w st d) = now w"
  "titleCanonical (stored_record w st d) = titleCanonical d"
  by (simp_all add: stored_record_def normalizedNewsData.defs)

lemma after_check_fields:
  "creates (after_check w st nd) = creates st"
  "documents (after_check w st nd) = documents st"
  "indexed (after_check w st nd) = indexed st"
  "indexings (after_check w st nd) = indexings st"
  "checks (after_check w st nd) = Suc (checks st)"
  by (simp_all add: after_check_def)

lemma processNews_try_blank:
  "trim (or_empty (nd_title nd)) = [] \<Longrightarrow>
   processNews_try w st nd = (Inl (Error (str ''Article has no title'')), st)"
  by (simp add: processNews_try_def)


lemma processNews_try_save:
  assumes "trim (or_empty (nd_title nd)) \<noteq> []" and "\<not> rejects (the_check w st nd)"
  shows "processNews_try w st nd =
     (case NewsNormalized_create w (after_check w st nd) (normalizedNewsData_of nd) of
        (Inl e, st2) \<Rightarrow> (Inl e, st2)
      | (Inr savedNews, st2) \<Rightarrow>
          (case indexNews w st2
                  ((newsDocument_of w nd)\<lparr>doc_id := Some (id_string (news_id savedNews))\<rparr>) of
             (Inl e, st3) \<Rightarrow> (Inl e, st3)
           | (Inr u, st3) \<Rightarrow>
               (Inr \<lparr>saved = True, reason = New_article_saved_successfully,
                     pr_original = None\<rparr>, st3)))"
proof -
  have "\<not> (isDuplicate (checkForDuplicates (w_pf w) (w_gw w) (draws st) (newsDocument_of w nd)) \<and>
           confirmed (checkForDuplicates (w_pf w) (w_gw w) (draws st) (newsDocument_of w nd)))"
    using assms(2) by (simp add: rejects_iff the_check_def)
  then show ?thesis
    using assms(1) by (simp only: processNews_try_def Let_def if_False)
qed







lemma ex_newsData_valid: "c \<noteq> [] \<Longrightarrow> t \<noteq> [] \<Longrightarrow> schema_valid (normalizedNewsData_of (ex_newsData t c))"
  "c \<noteq> [] \<Longrightarrow> t \<noteq> [] \<Longrightarrow> schema_valid (fallbackNewsData_of (ex_newsData t c))"
  by (simp_all add: schema_valid_def normalizedNewsData_of_def fallbackNewsData_of_def ex_newsData_def
      present_def published_of_def or_str_def str_def)






lemma ex_the_check_down:
  "the_check (ex_world ex_gateway_down f g) ex_system (ex_newsData t c) = not_duplicate"
  by (simp add: the_check_def checkForDuplicates_def checkForDuplicates_try_def Let_def
      ex_world_def ex_gateway_down_def split: prod.splits)

lemma ex_titles_not_blank:
  "trim (or_empty (nd_title (ex_newsData ''Aaaaaaaaaa bbbbbbbbbb'' c))) \<noteq> []"
  "trim (or_empty (nd_title (ex_newsData ''aaa bbb ccc ddd eee'' c))) \<noteq> []"
  "trim (or_empty (nd_title (ex_newsData ''   '' c))) = []"
  by (simp_all add: ex_newsData_def string_defs)



lemma processNews_fallback:
  assumes "processNews_try w st nd = (Inl e, st1)"
  shows "processNews w st nd =
     (if \<not> schema_valid (fallbackNewsData_of nd) then
        (\<lparr>saved = False, reason = Save_failed (validation_message w (fallbackNewsData_of nd)),
          pr_original = None\<rparr>, st1\<lparr>creates := Suc (creates st1)\<rparr>)
      else case create_fault w (creates st1) of
        None \<Rightarrow>
          (\<lparr>saved = True, reason = Saved_to_MongoDB_OpenSearch_failed, pr_original = None\<rparr>,
           st1\<lparr>creates := Suc (creates st1),
               documents := documents st1 @ [stored_record w st1 (fallbackNewsData_of nd)]\<rparr>)
      | Some fallbackError \<Rightarrow>
          (\<lparr>saved = False,
            reason = Save_failed (case fallbackError of Error message \<Rightarrow> message
                                  | NonErrorValue \<Rightarrow> str ''Unknown error''),
            pr_original = None\<rparr>, st1\<lparr>creates := Suc (creates st1)\<rparr>))"
  by (simp add: processNews_def assms create_eq split: option.splits)

lemma processNews_try_index_failure:
  assumes "trim (or_empty (nd_title nd)) \<noteq> []" and "\<not> rejects (the_check w st nd)"
    and "schema_valid (normalizedNewsData_of nd)"
    and "create_fault w (creates st) = None" and "index_fault w (indexings st) = Some e"
  shows "\<exists>st1. processNews_try w st nd = (Inl e, st1) \<and>
     creates st1 = Suc (creates st) \<and>
     documents st1 =
       documents st @ [stored_record w (after_check w st nd) (normalizedNewsData_of nd)] \<and>
     indexed st1 = indexed st \<and> indexings st1 = Suc (indexings st) \<and>
     checks st1 = Suc (checks st)"
  using assms(3-5)
  by (simp add: processNews_try_save[OF assms(1,2)] create_eq indexNews_eq after_check_fields)

lemma ex_faults:
  "create_fault (ex_world g cf f) = cf" "index_fault (ex_world g cf f) = f"
  "no_fault n = None" "always_fault n = Some (Error (str ''connect ECONNREFUSED''))"
  "second_fault 0 = None" "second_fault (Suc n) = Some (Error (str ''write failed''))"
  by (simp_all add: ex_world_def no_fault_def always_fault_def second_fault_def)

lemma ex_not_rejected_down: "\<not> rejects (the_check (ex_world ex_gateway_down cf f) ex_system (ex_newsData t c))"
  by (simp add: ex_the_check_down rejects_def not_duplicate_def)

lemma ex_system_fields:
  "creates ex_system = 0" "indexings ex_system = 0" "documents ex_system = []"
  "indexed ex_system = []" "checks ex_system = 0"
  by (simp_all add: ex_system_def)

lemma fallback_valid: "schema_valid (normalizedNewsData_of nd) \<Longrightarrow> schema_valid (fallbackNewsData_of nd)"
  by (simp add: schema_valid_def fallbackNewsData_of_def)


















text \<open>
  Claim C6 fails on the code.  When the write to the document store succeeds and the
  indexing request throws, the \<open>catch\<close> block writes the article a second time: the call
  leaves two stored records of the same article, under two identifiers, and answers with
  the fallback reason.
\<close>

theorem index_failure_stores_second_copy:
  assumes "trim (or_empty (nd_title nd)) \<noteq> []" and "\<not> rejects (the_check w st nd)"
    and "schema_valid (normalizedNewsData_of nd)"
    and "create_fault w (creates st) = None" and "create_fault w (Suc (creates st)) = None"
    and "index_fault w (indexings st) = Some e"
  shows "fst (processNews w st nd) =
           \<lparr>saved = True, reason = Saved_to_MongoDB_OpenSearch_failed, pr_original = None\<rparr>
       \<and> map titleCanonical (documents (snd (processNews w st nd))) =
           map titleCanonical (documents st) @ [nd_title nd, nd_title nd]
       \<and> map news_id (documents (snd (processNews w st nd))) =
           map news_id (documents st) @ [creates st, Suc (creates st)]
       \<and> indexed (snd (processNews w st nd)) = indexed st"
proof -
  obtain st1 where st1: "processNews_try w st nd = (Inl e, st1)"
    and f: "creates st1 = Suc (creates st)"
      "documents st1 =
         documents st @ [stored_record w (after_check w st nd) (normalizedNewsData_of nd)]"
      "indexed st1 = indexed st"
    using processNews_try_index_failure[OF assms(1-4,6)] by blast
  show ?thesis
    using assms(5) f fallback_valid[OF assms(3)]
    by (simp add: processNews_fallback[OF st1] stored_record_fields after_check_fields
        normalizedNewsData_of_def fallbackNewsData_of_def)
qed

theorem index_failure_stores_second_copy_witness:
  "map titleCanonical (documents (snd (processNews
       (ex_world ex_gateway_down no_fault always_fault) ex_system
       (ex_newsData ''Aaaaaaaaaa bbbbbbbbbb'' ''dddddddddd'')))) =
     [Some (str ''Aaaaaaaaaa bbbbbbbbbb''), Some (str ''Aaaaaaaaaa bbbbbbbbbb'')]
   \<and> map news_id (documents (snd (processNews
       (ex_world ex_gateway_down no_fault always_fault) ex_system
       (ex_newsData ''Aaaaaaaaaa bbbbbbbbbb'' ''dddddddddd'')))) = [0, 1]"
  using index_failure_stores_second_copy[OF ex_titles_not_blank(1)[of "''dddddddddd''"]
      ex_not_rejected_down[of no_fault always_fault] ex_newsData_valid(1),
      of "Error (str ''connect ECONNREFUSED'')"]
  by (simp add: ex_faults ex_system_fields ex_newsData_def)

text \<open>
  Claim C4 fails on the code.  For a title that is empty or white space only the duplicate
  check is not called, but the exception thrown for the missing title is caught by the
  service's own \<open>catch\<close> block, which writes the article to the document store: whenever
  the schema accepts the record (a title of white space is not empty) and the store works,
  the article is stored and the answer is \<open>saved = true\<close>.
\<close>

theorem blank_title_is_stored_by_fallback:
  assumes "trim (or_empty (nd_title nd)) = []"
  shows "checks (snd (processNews w st nd)) = checks st
       \<and> (schema_valid (fallbackNewsData_of nd) \<and> create_fault w (creates st) = None \<longrightarrow>
            fst (processNews w st nd) =
              \<lparr>saved = True, reason = Saved_to_MongoDB_OpenSearch_failed, pr_original = None\<rparr> \<and>
            documents (snd (processNews w st nd)) =
              documents st @ [stored_record w st (fallbackNewsData_of nd)])
       \<and> (\<not> schema_valid (fallbackNewsData_of nd) \<longrightarrow>
            \<not> saved (fst (processNews w st nd)) \<and>
            documents (snd (processNews w st nd)) = documents st)"
  by (simp add: processNews_fallback[OF processNews_try_blank[OF assms]] split: option.splits)

theorem blank_title_is_stored_by_fallback_witness:
  "fst (processNews (ex_world (ex_gateway [] []) no_fault no_fault) ex_system
         (ex_newsData ''   '' ''dddddddddd'')) =
     \<lparr>saved = True, reason = Saved_to_MongoDB_OpenSearch_failed, pr_original = None\<rparr>
   \<and> map titleCanonical (documents (snd (processNews
         (ex_world (ex_gateway [] []) no_fault no_fault) ex_system
         (ex_newsData ''   '' ''dddddddddd'')))) = [Some (str ''   '')]
   \<and> checks (snd (processNews (ex_world (ex_gateway [] []) no_fault no_fault) ex_system
         (ex_newsData ''   '' ''dddddddddd''))) = 0"
  using blank_title_is_stored_by_fallback[OF ex_titles_not_blank(3)[of "''dddddddddd''"],
      of "ex_world (ex_gateway [] []) no_fault no_fault" ex_system]
    ex_newsData_valid(2)[of "''dddddddddd''" "''   ''"]
  by (simp add: ex_faults ex_system_fields stored_record_fields fallbackNewsData_of_def
      normalizedNewsData_of_def ex_newsData_def)

text \<open>
  The Levenshtein distance as it is usually defined: the least number of insertions,
  deletions and substitutions of single elements, by recursion on the two texts.
\<close>

fun levenshtein :: "'a list \<Rightarrow> 'a list \<Rightarrow> nat" where
  "levenshtein [] ys = length ys"
| "levenshtein xs [] = length xs"
| "levenshtein (x # xs) (y # ys) =
     min (levenshtein xs (y # ys) + 1)
       (min (levenshtein (x # xs) ys + 1)
            (levenshtein xs ys + (if x = y then 0 else 1)))"

lemma levenshtein_Nil2 [simp]: "levenshtein xs [] = length xs"
  by (cases xs) simp_all

lemma lev_delete_le: "levenshtein (x # xs) ys \<le> levenshtein xs ys + 1"
  by (cases ys) simp_all

lemma lev_insert_le: "levenshtein xs (y # ys) \<le> levenshtein xs ys + 1"
  by (cases xs) simp_all

lemma lev_length_bounds:
  "length ys \<le> levenshtein xs ys + length xs \<and> length xs \<le> levenshtein xs ys + length ys"
  by (induction xs ys rule: levenshtein.induct) (auto simp: min_def)

lemma min3_plus_bound:
  fixes l :: nat
  assumes "l \<le> a + 1" "l \<le> b + 1" "l \<le> c + 1"
  shows "l \<le> min a (min b c) + 1"
  using assms by (simp add: min_def)

lemma lev_lipschitz:
  "levenshtein xs ys \<le> levenshtein (x # xs) ys + 1 \<and> levenshtein xs ys \<le> levenshtein xs (y # ys) + 1"
proof (induction xs ys arbitrary: x y rule: levenshtein.induct)
  case (1 ys)
  show ?case using lev_length_bounds[of ys "[x]"] by simp
next
  case (2 v va)
  show ?case using lev_length_bounds[of "[y]" "v # va"] by simp
next
  case (3 a xs b ys)
  define l where "l = levenshtein (a # xs) (b # ys)"
  have d1: "l \<le> levenshtein xs (b # ys) + 1" unfolding l_def by (rule lev_delete_le)
  have d2: "l \<le> levenshtein (a # xs) ys + 1" unfolding l_def by (rule lev_insert_le)
  have A: "l \<le> levenshtein (x # a # xs) (b # ys) + 1"
  proof -
    have "l \<le> (l + 1) + 1" by simp
    moreover have "l \<le> (levenshtein (x # a # xs) ys + 1) + 1"
      using d2 "3.IH"(2)[THEN conjunct1, of x] by linarith
    moreover have "l \<le> (levenshtein (a # xs) ys + (if x = b then 0 else 1)) + 1"
      using d2 by linarith
    ultimately have "l \<le> min (l + 1) (min (levenshtein (x # a # xs) ys + 1)
        (levenshtein (a # xs) ys + (if x = b then 0 else 1))) + 1"
      by (rule min3_plus_bound)
    then show ?thesis unfolding l_def by (simp only: levenshtein.simps(3))
  qed
  have B: "l \<le> levenshtein (a # xs) (y # b # ys) + 1"
  proof -
    have "l \<le> (levenshtein xs (y # b # ys) + 1) + 1"
      using d1 "3.IH"(1)[THEN conjunct2, of y] by linarith
    moreover have "l \<le> (l + 1) + 1" by simp
    moreover have "l \<le> (levenshtein xs (b # ys) + (if a = y then 0 else 1)) + 1"
      using d1 by linarith
    ultimately have "l \<le> min (levenshtein xs (y # b # ys) + 1) (min (l + 1)
        (levenshtein xs (b # ys) + (if a = y then 0 else 1))) + 1"
      by (rule min3_plus_bound)
    then show ?thesis unfolding l_def by (simp only: levenshtein.simps(3))
  qed
  from A B show ?case unfolding l_def by (rule conjI)
qed

lemma lev_same_head: "levenshtein (x # xs) (x # ys) = levenshtein xs ys"
proof -
  have "levenshtein xs ys \<le> levenshtein xs (x # ys) + 1"
    using lev_lipschitz[of xs ys x x] by (rule conjunct2)
  moreover have "levenshtein xs ys \<le> levenshtein (x # xs) ys + 1"
    using lev_lipschitz[of xs ys x x] by (rule conjunct1)
  ultimately have "min (levenshtein xs (x # ys) + 1)
       (min (levenshtein (x # xs) ys + 1) (levenshtein xs ys + 0)) = levenshtein xs ys"
    by (simp add: min_def)
  then show ?thesis by (simp only: levenshtein.simps(3) refl if_True)
qed

lemma min9:
  fixes p1 p2 p3 q1 q2 q3 r1 r2 r3 d e c :: nat
  shows "min (min (p1 + c) (min (p2 + c) (p3 + d)) + c)
           (min (min (q1 + c) (min (q2 + c) (q3 + d)) + c)
                (min (r1 + c) (min (r2 + c) (r3 + d)) + e))
       = min (min (p1 + c) (min (q1 + c) (r1 + e)) + c)
           (min (min (p2 + c) (min (q2 + c) (r2 + e)) + c)
                (min (p3 + c) (min (q3 + c) (r3 + e)) + d))"
  apply (simp only: min_add_distrib_left)
  apply (simp only: add.assoc add.commute add.left_commute min.assoc min.commute min.left_commute)
  done

lemma lev_sym: "levenshtein xs ys = levenshtein ys xs"
  by (induction xs ys rule: levenshtein.induct) (simp_all add: min.commute min.left_commute eq_commute)

lemma lev_single:
  "levenshtein [x] zs = (if x \<in> set zs then length zs - 1 else max 1 (length zs))"
proof (induction zs)
  case Nil
  show ?case by simp
next
  case (Cons b zs)
  have "levenshtein [x] (b # zs) =
      min (length zs + 1 + 1) (min (levenshtein [x] zs + 1) (length zs + (if x = b then 0 else 1)))"
    by simp
  also have "\<dots> = min (length zs + 1 + 1)
      (min ((if x \<in> set zs then length zs - 1 else max 1 (length zs)) + 1)
           (length zs + (if x = b then 0 else 1)))"
    by (simp only: Cons.IH)
  also have "\<dots> = (if x \<in> set (b # zs) then length (b # zs) - 1 else max 1 (length (b # zs)))"
    by (cases zs) auto
  finally show ?case .
qed

lemma lev_snoc_Nil1:
  "levenshtein [x] (ys @ [y]) =
     min (length ys + 1 + 1) (min (levenshtein [x] ys + 1) (length ys + (if x = y then 0 else 1)))"
  unfolding lev_single by (cases ys) auto

lemma lev_snoc_Nil2:
  "levenshtein (xs @ [x]) [y] =
     min (levenshtein xs [y] + 1) (min (length xs + 1 + 1) (length xs + (if x = y then 0 else 1)))"
proof -
  have d: "(if y = x then 0 else 1) = (if x = y then 0 else (1::nat))" by auto
  have "levenshtein (xs @ [x]) [y] = levenshtein [y] (xs @ [x])" by (rule lev_sym)
  also have "\<dots> = min (length xs + 1 + 1)
      (min (levenshtein [y] xs + 1) (length xs + (if y = x then 0 else 1)))"
    by (rule lev_snoc_Nil1)
  also have "\<dots> = min (levenshtein xs [y] + 1)
      (min (length xs + 1 + 1) (length xs + (if x = y then 0 else 1)))"
    by (simp only: d lev_sym[of "[y]" xs] min.left_commute)
  finally show ?thesis .
qed

lemma lev_snoc:
  "levenshtein (xs @ [x]) (ys @ [y]) =
     min (levenshtein xs (ys @ [y]) + 1)
       (min (levenshtein (xs @ [x]) ys + 1)
            (levenshtein xs ys + (if x = y then 0 else 1)))"
proof (induction xs ys arbitrary: x y rule: levenshtein.induct)
  case (1 ys)
  show ?case using lev_snoc_Nil1[of x ys y] by simp
next
  case (2 v va)
  show ?case using lev_snoc_Nil2[of "v # va" x y] by (simp del: levenshtein.simps(3))
next
  case (3 a xs b ys)
  let ?d = "if x = y then 0 else (1::nat)"
  let ?e = "if a = b then 0 else (1::nat)"
  have IH1: "levenshtein (xs @ [x]) (b # ys @ [y]) =
      min (levenshtein xs (b # ys @ [y]) + 1)
        (min (levenshtein (xs @ [x]) (b # ys) + 1) (levenshtein xs (b # ys) + ?d))"
    using "3.IH"(1)[of x y] by (simp only: append_Cons)
  have IH2: "levenshtein (a # xs @ [x]) (ys @ [y]) =
      min (levenshtein (a # xs) (ys @ [y]) + 1)
        (min (levenshtein (a # xs @ [x]) ys + 1) (levenshtein (a # xs) ys + ?d))"
    using "3.IH"(2)[of x y] by (simp only: append_Cons)
  note IH3 = "3.IH"(3)[of x y]
  have L: "levenshtein ((a # xs) @ [x]) ((b # ys) @ [y]) =
      min (levenshtein (xs @ [x]) (b # ys @ [y]) + 1)
        (min (levenshtein (a # xs @ [x]) (ys @ [y]) + 1)
             (levenshtein (xs @ [x]) (ys @ [y]) + ?e))"
    by (simp only: append_Cons levenshtein.simps(3))
  have R1: "levenshtein (a # xs) ((b # ys) @ [y]) =
      min (levenshtein xs (b # ys @ [y]) + 1)
        (min (levenshtein (a # xs) (ys @ [y]) + 1) (levenshtein xs (ys @ [y]) + ?e))"
    by (simp only: append_Cons levenshtein.simps(3))
  have R2: "levenshtein ((a # xs) @ [x]) (b # ys) =
      min (levenshtein (xs @ [x]) (b # ys) + 1)
        (min (levenshtein (a # xs @ [x]) ys + 1) (levenshtein (xs @ [x]) ys + ?e))"
    by (simp only: append_Cons levenshtein.simps(3))
  have R3: "levenshtein (a # xs) (b # ys) =
      min (levenshtein xs (b # ys) + 1)
        (min (levenshtein (a # xs) ys + 1) (levenshtein xs ys + ?e))"
    by (simp only: levenshtein.simps(3))
  show ?case unfolding L R1 R2 R3 IH1 IH2 IH3 by (rule min9)
qed

lemma lev_rev: "levenshtein (rev xs) (rev ys) = levenshtein xs ys"
proof (induction xs ys rule: levenshtein.induct)
  case (1 ys)
  show ?case by simp
next
  case (2 v va)
  show ?case by (simp del: levenshtein.simps(3))
next
  case (3 x xs y ys)
  have "levenshtein (rev (x # xs)) (rev (y # ys)) = levenshtein (rev xs @ [x]) (rev ys @ [y])"
    by simp
  also have "\<dots> = min (levenshtein (rev xs) (rev ys @ [y]) + 1)
       (min (levenshtein (rev xs @ [x]) (rev ys) + 1)
            (levenshtein (rev xs) (rev ys) + (if x = y then 0 else 1)))"
    by (rule lev_snoc)
  also have "\<dots> = min (levenshtein xs (y # ys) + 1)
       (min (levenshtein (x # xs) ys + 1) (levenshtein xs ys + (if x = y then 0 else 1)))"
    using "3.IH" by simp
  also have "\<dots> = levenshtein (x # xs) (y # ys)" by simp
  finally show ?case .
qed

section \<open>Deduplication of feed sources: the edit-distance similarity\<close>

definition js_set :: "'a list \<Rightarrow> nat \<Rightarrow> 'a \<Rightarrow> 'a list" where
  \<comment> \<open>the assignment \<open>xs[i] = v\<close> to an array, for an index up to its length: it replaces
      an element or appends one (every assignment of the program is of this kind)\<close>
  "js_set xs i v = (if i < length xs then xs[i := v] else xs @ [v])"

function init_rows :: "nat \<Rightarrow> nat \<Rightarrow> nat list list \<Rightarrow> nat list list" where
  \<comment> \<open>\<open>for (let i = 0; i <= m; i++) matrix[i] = [i]\<close>\<close>
  "init_rows m i matrix =
     (if i \<le> m then init_rows m (Suc i) (js_set matrix i [i]) else matrix)"
  by pat_completeness auto
termination
  by (relation "measure (\<lambda>(m, i, matrix). Suc m - i)") auto

function init_columns :: "nat \<Rightarrow> nat \<Rightarrow> nat list list \<Rightarrow> nat list list" where
  \<comment> \<open>\<open>for (let j = 0; j <= n; j++) matrix[0][j] = j\<close>\<close>
  "init_columns n j matrix =
     (if j \<le> n then init_columns n (Suc j) (matrix[0 := js_set (matrix ! 0) j j]) else matrix)"
  by pat_completeness auto
termination
  by (relation "measure (\<lambda>(n, j, matrix). Suc n - j)") auto

definition cell :: "jsstring \<Rightarrow> jsstring \<Rightarrow> nat list list \<Rightarrow> nat \<Rightarrow> nat \<Rightarrow> nat" where
  \<comment> \<open>the value assigned to \<open>matrix[i][j]\<close> in the body of the inner loop\<close>
  "cell s1 s2 matrix i j =
     (if s2 ! (i - 1) = s1 ! (j - 1) then matrix ! (i - 1) ! (j - 1)
      else min (matrix ! (i - 1) ! (j - 1) + 1)
               (min (matrix ! i ! (j - 1) + 1) (matrix ! (i - 1) ! j + 1)))"

function fill_row :: "jsstring \<Rightarrow> jsstring \<Rightarrow> nat \<Rightarrow> nat \<Rightarrow> nat \<Rightarrow> nat list list \<Rightarrow> nat list list" where
  \<comment> \<open>\<open>for (let j = 1; j <= n; j++)\<close>, in row \<open>i\<close>\<close>
  "fill_row s1 s2 n i j matrix =
     (if j \<le> n then
        fill_row s1 s2 n i (Suc j)
          (matrix[i := js_set (matrix ! i) j (cell s1 s2 matrix i j)])
      else matrix)"
  by pat_completeness auto
termination
  by (relation "measure (\<lambda>(s1, s2, n, i, j, matrix). Suc n - j)") auto

function fill_rows :: "jsstring \<Rightarrow> jsstring \<Rightarrow> nat \<Rightarrow> nat \<Rightarrow> nat \<Rightarrow> nat list list \<Rightarrow> nat list list" where
  \<comment> \<open>\<open>for (let i = 1; i <= m; i++)\<close>\<close>
  "fill_rows s1 s2 m n i matrix =
     (if i \<le> m then fill_rows s1 s2 m n (Suc i) (fill_row s1 s2 n i 1 matrix) else matrix)"
  by pat_completeness auto
termination
  by (relation "measure (\<lambda>(s1, s2, m, n, i, matrix). Suc m - i)") auto

definition calculateStringSimilarity :: "jsstring \<Rightarrow> jsstring \<Rightarrow> real" where
  \<comment> \<open>an undefined argument takes the default \<open>''\<close>\<close>
  "calculateStringSimilarity str1 str2 =
     (if str1 = [] \<or> str2 = [] then 0
      else
        let s1 = trim (toLowerCase str1); s2 = trim (toLowerCase str2) in
        if s1 = s2 then 1
        else
          let n = length s1; m = length s2 in
          if n = 0 then (if m = 0 then 1 else 0)
          else if m = 0 then 0
          else
            let matrix = fill_rows s1 s2 m n 1 (init_columns n 0 (init_rows m 0 []));
                distance = matrix ! m ! n;
                maxLength = max n m
            in if maxLength = 0 then 1
               else (real maxLength - real distance) / real maxLength)"

definition prefix_distance :: "jsstring \<Rightarrow> jsstring \<Rightarrow> nat \<Rightarrow> nat \<Rightarrow> nat" where
  \<comment> \<open>the distance between the first \<open>j\<close> code units of \<open>s1\<close> and the first \<open>i\<close> of \<open>s2\<close>\<close>
  "prefix_distance s1 s2 i j = levenshtein (take j s1) (take i s2)"

definition dp_state :: "jsstring \<Rightarrow> jsstring \<Rightarrow> nat \<Rightarrow> nat \<Rightarrow> nat list list" where
  \<comment> \<open>the matrix when the loops are about to assign \<open>matrix[i][j]\<close>: the rows above \<open>i\<close> are
      complete, row \<open>i\<close> is filled up to column \<open>j\<close>, the rows below hold their first cell\<close>
  "dp_state s1 s2 i j =
     map (\<lambda>i'. if i' < i then map (prefix_distance s1 s2 i') [0..<Suc (length s1)]
               else if i' = i then map (prefix_distance s1 s2 i) [0..<j]
               else [i'])
       [0..<Suc (length s2)]"

declare init_rows.simps [simp del] init_columns.simps [simp del]
  fill_row.simps [simp del] fill_rows.simps [simp del]

lemma list_update_map_upt:
  "i < k \<Longrightarrow> (map f [0..<k])[i := v] = map (\<lambda>x. if x = i then v else f x) [0..<k]"
  by (rule nth_equalityI) (auto simp: nth_list_update)

lemma init_rows_run:
  "i \<le> Suc m \<Longrightarrow> init_rows m i (map (\<lambda>i. [i]) [0..<i]) = map (\<lambda>i. [i]) [0..<Suc m]"
proof (induction "Suc m - i" arbitrary: i)
  case 0
  then have "i = Suc m" by simp
  then show ?case by (subst init_rows.simps) simp
next
  case (Suc k)
  then have le: "i \<le> m" by simp
  have "js_set (map (\<lambda>i. [i]) [0..<i]) i [i] = map (\<lambda>i. [i]) [0..<Suc i]"
    by (simp add: js_set_def)
  moreover have "init_rows m (Suc i) (map (\<lambda>i. [i]) [0..<Suc i]) = map (\<lambda>i. [i]) [0..<Suc m]"
    using Suc.hyps(1)[of "Suc i"] Suc.hyps(2) le by simp
  ultimately show ?case using le by (subst init_rows.simps) simp
qed

lemma init_columns_run:
  "1 \<le> j \<Longrightarrow> j \<le> Suc n \<Longrightarrow> init_columns n j ([0..<j] # rows) = [0..<Suc n] # rows"
proof (induction "Suc n - j" arbitrary: j)
  case 0
  then have "j = Suc n" by simp
  then show ?case by (subst init_columns.simps) simp
next
  case (Suc k)
  then have le: "j \<le> n" by simp
  have "([0..<j] # rows)[0 := js_set (([0..<j] # rows) ! 0) j j] = [0..<Suc j] # rows"
    by (simp add: js_set_def)
  moreover have "init_columns n (Suc j) ([0..<Suc j] # rows) = [0..<Suc n] # rows"
    using Suc.hyps(1)[of "Suc j"] Suc.hyps(2) le by simp
  ultimately show ?case using le by (subst init_columns.simps) simp
qed

lemma init_columns_first:
  "init_columns n 0 ([0] # rows) = [0..<Suc n] # rows"
proof -
  have "init_columns n 0 ([0] # rows) = init_columns n 1 ([0] # rows)"
    by (subst init_columns.simps) (simp add: js_set_def)
  also have "\<dots> = init_columns n 1 ([0..<1] # rows)" by simp
  also have "\<dots> = [0..<Suc n] # rows" by (rule init_columns_run) simp_all
  finally show ?thesis .
qed

lemma prefix_distance_0:
  "i \<le> length s2 \<Longrightarrow> prefix_distance s1 s2 i 0 = i"
  "j \<le> length s1 \<Longrightarrow> prefix_distance s1 s2 0 j = j"
  by (simp_all add: prefix_distance_def)

lemma init_state:
  assumes "1 \<le> length s2"
  shows "init_columns (length s1) 0 (init_rows (length s2) 0 []) = dp_state s1 s2 1 1"
proof -
  have "init_rows (length s2) 0 [] = map (\<lambda>i. [i]) [0..<Suc (length s2)]"
    using init_rows_run[of 0 "length s2"] by simp
  also have "\<dots> = [0] # map (\<lambda>i. [i]) [1..<Suc (length s2)]"
    by (simp add: upt_conv_Cons del: upt_Suc)
  finally have "init_columns (length s1) 0 (init_rows (length s2) 0 []) =
      [0..<Suc (length s1)] # map (\<lambda>i. [i]) [1..<Suc (length s2)]"
    by (simp only: init_columns_first)
  also have "\<dots> = dp_state s1 s2 1 1"
  proof -
    have row0: "map (prefix_distance s1 s2 0) [0..<Suc (length s1)] = [0..<Suc (length s1)]"
      by (rule map_idI) (auto simp add: prefix_distance_def)
    have rows: "map (\<lambda>i'. if i' < 1 then map (prefix_distance s1 s2 i') [0..<Suc (length s1)]
               else if i' = 1 then map (prefix_distance s1 s2 1) [0..<1]
               else [i']) [1..<Suc (length s2)] = map (\<lambda>i. [i]) [1..<Suc (length s2)]"
      using assms by (intro map_cong refl) (auto simp: prefix_distance_0(1))
    have "dp_state s1 s2 1 1 =
        map (\<lambda>i'. if i' < 1 then map (prefix_distance s1 s2 i') [0..<Suc (length s1)]
               else if i' = 1 then map (prefix_distance s1 s2 1) [0..<1]
               else [i']) (0 # [1..<Suc (length s2)])"
      unfolding dp_state_def by (simp add: upt_conv_Cons del: upt_Suc)
    also have "\<dots> = [0..<Suc (length s1)] # map (\<lambda>i. [i]) [1..<Suc (length s2)]"
      unfolding list.map rows using row0 by simp
    finally show ?thesis by simp
  qed
  finally show ?thesis .
qed

lemma lev_snoc_same: "levenshtein (xs @ [x]) (ys @ [x]) = levenshtein xs ys"
proof -
  have "levenshtein (xs @ [x]) (ys @ [x]) = levenshtein (rev (xs @ [x])) (rev (ys @ [x]))"
    by (simp only: lev_rev)
  also have "\<dots> = levenshtein (x # rev xs) (x # rev ys)" by (simp only: rev_append rev.simps append.simps)
  also have "\<dots> = levenshtein (rev xs) (rev ys)" by (rule lev_same_head)
  also have "\<dots> = levenshtein xs ys" by (rule lev_rev)
  finally show ?thesis .
qed

lemma prefix_distance_step:
  assumes "1 \<le> i" "i \<le> length s2" "1 \<le> j" "j \<le> length s1"
  shows "prefix_distance s1 s2 i j =
     (if s2 ! (i - 1) = s1 ! (j - 1) then prefix_distance s1 s2 (i - 1) (j - 1)
      else min (prefix_distance s1 s2 (i - 1) (j - 1) + 1)
               (min (prefix_distance s1 s2 i (j - 1) + 1) (prefix_distance s1 s2 (i - 1) j + 1)))"
proof -
  obtain i' j' where ij: "i = Suc i'" "j = Suc j'" using assms(1,3) by (cases i; cases j) auto
  have t1: "take j s1 = take j' s1 @ [s1 ! j']"
    using assms(4) ij by (simp add: take_Suc_conv_app_nth)
  have t2: "take i s2 = take i' s2 @ [s2 ! i']"
    using assms(2) ij by (simp add: take_Suc_conv_app_nth)
  show ?thesis
  proof (cases "s2 ! i' = s1 ! j'")
    case True
    then have "levenshtein (take j' s1 @ [s1 ! j']) (take i' s2 @ [s2 ! i']) =
        levenshtein (take j' s1) (take i' s2)"
      by (simp only: lev_snoc_same)
    with True show ?thesis
      unfolding prefix_distance_def t1 t2 by (simp add: ij)
  next
    case False
    then have ne: "s1 ! j' \<noteq> s2 ! i'" by simp
    have "levenshtein (take j' s1 @ [s1 ! j']) (take i' s2 @ [s2 ! i']) =
        min (levenshtein (take j' s1) (take i' s2 @ [s2 ! i']) + 1)
          (min (levenshtein (take j' s1 @ [s1 ! j']) (take i' s2) + 1)
               (levenshtein (take j' s1) (take i' s2) + 1))"
      using ne by (simp only: lev_snoc if_False)
    then have "prefix_distance s1 s2 i j =
        min (prefix_distance s1 s2 i j' + 1)
          (min (prefix_distance s1 s2 i' j + 1) (prefix_distance s1 s2 i' j' + 1))"
      unfolding prefix_distance_def t1[symmetric] t2[symmetric] .
    with False show ?thesis
      by (simp add: ij min.commute min.left_commute)
  qed
qed

lemma dp_state_nth:
  "i' \<le> length s2 \<Longrightarrow>
   dp_state s1 s2 i j ! i' =
     (if i' < i then map (prefix_distance s1 s2 i') [0..<Suc (length s1)]
      else if i' = i then map (prefix_distance s1 s2 i) [0..<j]
      else [i'])"
  unfolding dp_state_def by (simp add: nth_map_upt del: upt_Suc)

lemma length_dp_state: "length (dp_state s1 s2 i j) = Suc (length s2)"
  by (simp add: dp_state_def)

lemma cell_dp_state:
  assumes "1 \<le> i" "i \<le> length s2" "1 \<le> j" "j \<le> length s1"
  shows "cell s1 s2 (dp_state s1 s2 i j) i j = prefix_distance s1 s2 i j"
proof -
  have a: "dp_state s1 s2 i j ! (i - 1) ! (j - 1) = prefix_distance s1 s2 (i - 1) (j - 1)"
    using assms by (simp add: dp_state_nth nth_map_upt del: upt_Suc)
  have b: "dp_state s1 s2 i j ! i ! (j - 1) = prefix_distance s1 s2 i (j - 1)"
    using assms by (simp add: dp_state_nth nth_map_upt del: upt_Suc)
  have c: "dp_state s1 s2 i j ! (i - 1) ! j = prefix_distance s1 s2 (i - 1) j"
    using assms by (simp add: dp_state_nth nth_map_upt del: upt_Suc)
  show ?thesis
    unfolding cell_def a b c by (simp only: prefix_distance_step[OF assms])
qed

lemma dp_state_fill:
  assumes "i \<le> length s2"
  shows "(dp_state s1 s2 i j)[i := js_set (dp_state s1 s2 i j ! i) j (prefix_distance s1 s2 i j)] =
     dp_state s1 s2 i (Suc j)"
proof -
  have "js_set (dp_state s1 s2 i j ! i) j (prefix_distance s1 s2 i j) =
      map (prefix_distance s1 s2 i) [0..<Suc j]"
    using assms by (simp add: dp_state_nth js_set_def)
  then show ?thesis
    using assms unfolding dp_state_def
    by (simp only: list_update_map_upt[of i "Suc (length s2)"] less_Suc_eq_le)
       (rule map_cong, auto)
qed

lemma fill_row_run:
  assumes "1 \<le> i" "i \<le> length s2"
  shows "1 \<le> j \<Longrightarrow> j \<le> Suc (length s1) \<Longrightarrow>
     fill_row s1 s2 (length s1) i j (dp_state s1 s2 i j) = dp_state s1 s2 i (Suc (length s1))"
proof (induction "Suc (length s1) - j" arbitrary: j)
  case 0
  then have "j = Suc (length s1)" by simp
  then show ?case by (subst fill_row.simps) simp
next
  case (Suc k)
  then have le: "j \<le> length s1" by simp
  have "fill_row s1 s2 (length s1) i (Suc j) (dp_state s1 s2 i (Suc j)) =
      dp_state s1 s2 i (Suc (length s1))"
    using Suc.hyps(1)[of "Suc j"] Suc.hyps(2) le by simp
  then show ?case
    using le
    by (subst fill_row.simps)
       (simp add: cell_dp_state[OF assms Suc.prems(1) le] dp_state_fill[OF assms(2)])
qed

lemma dp_state_next_row:
  "dp_state s1 s2 i (Suc (length s1)) = dp_state s1 s2 (Suc i) 1"
  unfolding dp_state_def
  by (rule map_cong) (auto simp: prefix_distance_def less_Suc_eq)

lemma fill_rows_run:
  "1 \<le> i \<Longrightarrow> i \<le> Suc (length s2) \<Longrightarrow>
   fill_rows s1 s2 (length s2) (length s1) i (dp_state s1 s2 i 1) =
     dp_state s1 s2 (Suc (length s2)) 1"
proof (induction "Suc (length s2) - i" arbitrary: i)
  case 0
  then have "i = Suc (length s2)" by simp
  then show ?case by (subst fill_rows.simps) simp
next
  case (Suc k)
  then have le: "i \<le> length s2" by simp
  have row: "fill_row s1 s2 (length s1) i (Suc 0) (dp_state s1 s2 i (Suc 0)) =
      dp_state s1 s2 (Suc i) (Suc 0)"
    using fill_row_run[OF Suc.prems(1) le, of 1] by (simp add: dp_state_next_row)
  have "fill_rows s1 s2 (length s2) (length s1) (Suc i) (dp_state s1 s2 (Suc i) 1) =
      dp_state s1 s2 (Suc (length s2)) 1"
    using Suc.hyps(1)[of "Suc i"] Suc.hyps(2) le by simp
  then show ?case using le by (subst fill_rows.simps) (simp add: row)
qed

lemma matrix_distance:
  assumes "s2 \<noteq> []"
  shows "fill_rows s1 s2 (length s2) (length s1) 1
           (init_columns (length s1) 0 (init_rows (length s2) 0 [])) ! length s2 ! length s1
         = levenshtein s1 s2"
proof -
  have m: "1 \<le> length s2" using assms by (cases s2) simp_all
  have "fill_rows s1 s2 (length s2) (length s1) 1
           (init_columns (length s1) 0 (init_rows (length s2) 0 [])) =
        dp_state s1 s2 (Suc (length s2)) 1"
    using fill_rows_run[of 1 s2 s1] m by (simp add: init_state[OF m])
  then show ?thesis
    by (simp add: dp_state_nth nth_map_upt prefix_distance_def del: upt_Suc)
qed

lemma lev_refl: "levenshtein xs xs = 0"
  by (induction xs) (simp_all add: lev_same_head del: levenshtein.simps(3))

lemma calculateStringSimilarity_distance:
  assumes "trim (toLowerCase str1) \<noteq> []" "trim (toLowerCase str2) \<noteq> []"
  shows "calculateStringSimilarity str1 str2 =
     (real (max (length (trim (toLowerCase str1))) (length (trim (toLowerCase str2))))
        - real (levenshtein (trim (toLowerCase str1)) (trim (toLowerCase str2))))
     / real (max (length (trim (toLowerCase str1))) (length (trim (toLowerCase str2))))"
proof -
  define s1 where "s1 = trim (toLowerCase str1)"
  define s2 where "s2 = trim (toLowerCase str2)"
  have ne: "str1 \<noteq> []" "str2 \<noteq> []"
    using assms by (auto simp: trim_def toLowerCase_def)
  have pos: "0 < length s1" "0 < length s2" using assms by (simp_all add: s1_def s2_def)
  show ?thesis
  proof (cases "s1 = s2")
    case True
    then show ?thesis
      using ne pos unfolding calculateStringSimilarity_def s1_def[symmetric] s2_def[symmetric] Let_def
      by (simp add: lev_refl)
  next
    case False
    have "s2 \<noteq> []" using pos by auto
    from matrix_distance[OF this, of s1] False ne pos show ?thesis
      unfolding calculateStringSimilarity_def s1_def[symmetric] s2_def[symmetric] Let_def
      by simp
  qed
qed

theorem editSim_empty_counterexample:
  "calculateStringSimilarity (str []) (str []) = 0
   \<and> calculateStringSimilarity (str []) (str []) \<noteq> 1"
  by (simp add: calculateStringSimilarity_def str_def)

text \<open>
  Claim C7, amended.  An empty argument gives similarity 0, also when both are empty;
  \<open>editSim("abc", "abc") = 1\<close>; two non-empty arguments that are equal once lower-cased
  and trimmed give 1 (two arguments of white space only included); a non-empty argument of
  white space only against any other text gives 0; and for arguments that are not empty
  after trimming the similarity is \<open>(maxLen - distance) / maxLen\<close>, where the distance is
  the Levenshtein distance of the lower-cased, trimmed texts.
\<close>

theorem editSim_amended:
  fixes str1 str2 :: jsstring
  defines "s1 \<equiv> trim (toLowerCase str1)" and "s2 \<equiv> trim (toLowerCase str2)"
  shows "calculateStringSimilarity [] str2 = 0 \<and> calculateStringSimilarity str1 [] = 0
       \<and> calculateStringSimilarity (str []) (str ''a'') = 0
       \<and> calculateStringSimilarity (str ''abc'') (str ''abc'') = 1
       \<and> (str1 \<noteq> [] \<and> str2 \<noteq> [] \<and> s1 = s2 \<longrightarrow> calculateStringSimilarity str1 str2 = 1)
       \<and> (str1 \<noteq> [] \<and> str2 \<noteq> [] \<and> s1 \<noteq> s2 \<and> (s1 = [] \<or> s2 = []) \<longrightarrow>
            calculateStringSimilarity str1 str2 = 0)
       \<and> (s1 \<noteq> [] \<and> s2 \<noteq> [] \<longrightarrow>
            calculateStringSimilarity str1 str2 =
              (real (max (length s1) (length s2)) - real (levenshtein s1 s2))
                / real (max (length s1) (length s2)))"
proof (intro conjI impI)
  show "calculateStringSimilarity (str ''abc'') (str ''abc'') = 1"
    by (simp add: calculateStringSimilarity_def str_def)
  show "calculateStringSimilarity str1 str2 =
          (real (max (length s1) (length s2)) - real (levenshtein s1 s2))
            / real (max (length s1) (length s2))"
    if "s1 \<noteq> [] \<and> s2 \<noteq> []"
    using that unfolding s1_def s2_def by (intro calculateStringSimilarity_distance) simp_all
  show "calculateStringSimilarity str1 str2 = 0"
    if "str1 \<noteq> [] \<and> str2 \<noteq> [] \<and> s1 \<noteq> s2 \<and> (s1 = [] \<or> s2 = [])"
    using that unfolding s1_def s2_def
    by (auto simp: calculateStringSimilarity_def Let_def)
qed (simp_all add: calculateStringSimilarity_def s1_def s2_def str_def)

theorem editSim_amended_witness:
  "calculateStringSimilarity (str ''Flaw '') (str ''lawn'') = 1 / 2
   \<and> calculateStringSimilarity (str ''  '') (str '' '') = 1
   \<and> calculateStringSimilarity (str '' '') (str ''a'') = 0"
proof -
  have t: "trim (toLowerCase (str ''Flaw '')) = str ''flaw''"
    "trim (toLowerCase (str ''lawn'')) = str ''lawn''"
    "trim (toLowerCase (str ''  '')) = []" "trim (toLowerCase (str '' '')) = []"
    "trim (toLowerCase (str ''a'')) = str ''a''"
    by (simp_all add: string_defs)
  have d: "levenshtein (str ''flaw'') (str ''lawn'') = 2"
    by (simp add: str_def)
  have a: "calculateStringSimilarity (str ''Flaw '') (str ''lawn'') = 1 / 2"
    using editSim_amended[where ?str1.0 = "str ''Flaw ''" and ?str2.0 = "str ''lawn''"]
    by (simp add: t d) (simp add: str_def)
  have b: "calculateStringSimilarity (str ''  '') (str '' '') = 1"
    using editSim_amended[where ?str1.0 = "str ''  ''" and ?str2.0 = "str '' ''"]
    by (simp add: t) (simp add: str_def)
  have c: "calculateStringSimilarity (str '' '') (str ''a'') = 0"
    using editSim_amended[where ?str1.0 = "str '' ''" and ?str2.0 = "str ''a''"]
    by (simp add: t) (simp add: str_def)
  from a b c show ?thesis by simp
qed

section \<open>Deduplication of feed sources: URL normalisation and the duplicate check\<close>

text \<open>
  The platform's \<open>URL\<close> class is modelled for plain web addresses
  \<open>http(s)://host[:port][/path][?query][#fragment]\<close> that need no percent-encoding: the
  parser lower-cases scheme and host, drops the port when it is the default of the scheme,
  and gives an empty path as \<open>/\<close>; every other text fails to parse, as a relative or
  malformed address does.  \<open>URLSearchParams\<close> splits the query at \<open>&\<close> and at the first
  \<open>=\<close> of each part.
\<close>

record URL =
  protocol :: jsstring
  hostname :: jsstring
  port :: jsstring
  pathname :: jsstring
  search :: jsstring
  hash :: jsstring

fun starts_with :: "'a list \<Rightarrow> 'a list \<Rightarrow> bool" where
  \<comment> \<open>\<open>s.startsWith(p)\<close>, the prefix first\<close>
  "starts_with [] s = True"
| "starts_with (p # ps) [] = False"
| "starts_with (p # ps) (c # cs) = (p = c \<and> starts_with ps cs)"

fun contains :: "'a list \<Rightarrow> 'a list \<Rightarrow> bool" where
  \<comment> \<open>\<open>s.contains(p)\<close>, the part looked for first\<close>
  "contains p [] = (p = [])"
| "contains p (c # cs) = (starts_with p (c # cs) \<or> contains p cs)"

definition default_port :: "jsstring \<Rightarrow> jsstring" where
  "default_port proto = (if proto = str ''http:'' then str ''80''
                         else if proto = str ''https:'' then str ''443'' else [])"

definition split_authority :: "jsstring \<Rightarrow> jsstring \<times> jsstring" where
  \<comment> \<open>host and port of \<open>host[:port]\<close>, split at the last colon\<close>
  "split_authority a =
     (if 58 \<in> set a
      then (rev (tl (dropWhile (\<lambda>c. c \<noteq> 58) (rev a))), rev (takeWhile (\<lambda>c. c \<noteq> 58) (rev a)))
      else (a, []))"

definition stops_authority :: "nat \<Rightarrow> bool" where
  \<comment> \<open>\<open>/\<close>, \<open>?\<close> or \<open>#\<close> ends the authority\<close>
  "stops_authority c \<longleftrightarrow> c = 47 \<or> c = 63 \<or> c = 35"

definition stops_path :: "nat \<Rightarrow> bool" where
  \<comment> \<open>\<open>?\<close> or \<open>#\<close> ends the path\<close>
  "stops_path c \<longleftrightarrow> c = 63 \<or> c = 35"

definition parse_parts :: "jsstring \<Rightarrow> jsstring \<Rightarrow> jsstring \<Rightarrow> jsstring \<Rightarrow> URL option" where
  \<comment> \<open>the URL of a scheme, a host, a port and what follows the authority\<close>
  "parse_parts scheme host prt rest =
     (if host = [] \<or> \<not> (\<forall>c \<in> set prt. 48 \<le> c \<and> c \<le> 57) then None
      else Some \<lparr>protocol = scheme @ [58],
                 hostname = toLowerCase host,
                 port = (if prt = default_port (scheme @ [58]) then [] else prt),
                 pathname = (if takeWhile (\<lambda>c. \<not> stops_path c) rest = [] then [47]
                             else takeWhile (\<lambda>c. \<not> stops_path c) rest),
                 search =
                   (if takeWhile (\<lambda>c. c \<noteq> 35) (dropWhile (\<lambda>c. \<not> stops_path c) rest) = [63]
                    then []
                    else takeWhile (\<lambda>c. c \<noteq> 35) (dropWhile (\<lambda>c. \<not> stops_path c) rest)),
                 hash = (if dropWhile (\<lambda>c. c \<noteq> 35) rest = [35] then []
                         else dropWhile (\<lambda>c. c \<noteq> 35) rest)\<rparr>)"

definition parse_after_scheme :: "jsstring \<Rightarrow> jsstring \<Rightarrow> URL option" where
  \<comment> \<open>what follows \<open>scheme://\<close>: the authority \<open>host[:port]\<close>, then path, query and fragment\<close>
  "parse_after_scheme scheme after =
     parse_parts scheme
       (fst (split_authority (takeWhile (\<lambda>c. \<not> stops_authority c) after)))
       (snd (split_authority (takeWhile (\<lambda>c. \<not> stops_authority c) after)))
       (dropWhile (\<lambda>c. \<not> stops_authority c) after)"

definition parse_URL :: "jsstring \<Rightarrow> URL option" where
  \<comment> \<open>\<open>new URL(url)\<close>; \<open>None\<close> when it throws\<close>
  "parse_URL url_text =
     (if (toLowerCase (takeWhile (\<lambda>c. c \<noteq> 58) url_text) = str ''http'' \<or>
          toLowerCase (takeWhile (\<lambda>c. c \<noteq> 58) url_text) = str ''https'') \<and>
         starts_with (str ''://'') (dropWhile (\<lambda>c. c \<noteq> 58) url_text)
      then parse_after_scheme (toLowerCase (takeWhile (\<lambda>c. c \<noteq> 58) url_text))
             (drop 3 (dropWhile (\<lambda>c. c \<noteq> 58) url_text))
      else None)"

definition URL_toString :: "URL \<Rightarrow> jsstring" where
  "URL_toString u =
     protocol u @ str ''//'' @ hostname u @ (if port u = [] then [] else 58 # port u)
       @ pathname u @ search u @ hash u"

definition split_pair :: "jsstring \<Rightarrow> jsstring \<times> jsstring" where
  \<comment> \<open>\<open>key=value\<close>, split at the first \<open>=\<close>\<close>
  "split_pair p = (takeWhile (\<lambda>c. c \<noteq> 61) p, drop 1 (dropWhile (\<lambda>c. c \<noteq> 61) p))"

definition URLSearchParams :: "jsstring \<Rightarrow> (jsstring \<times> jsstring) list" where
  \<comment> \<open>\<open>new URLSearchParams(search)\<close>: the pairs in the order of the query\<close>
  "URLSearchParams s =
     map split_pair
       (filter (\<lambda>p. p \<noteq> []) (split_on 38 (if starts_with [63] s then drop 1 s else s)))"

definition params_get :: "(jsstring \<times> jsstring) list \<Rightarrow> jsstring \<Rightarrow> jsstring option" where
  \<comment> \<open>\<open>params.get(key)\<close>: the value of the first pair with that key\<close>
  "params_get params key = map_of params key"

fun join_with :: "jsstring \<Rightarrow> jsstring list \<Rightarrow> jsstring" where
  "join_with sep [] = []"
| "join_with sep [x] = x"
| "join_with sep (x # y # xs) = x @ sep @ join_with sep (y # xs)"

definition params_toString :: "(jsstring \<times> jsstring) list \<Rightarrow> jsstring" where
  "params_toString params = join_with [38] (map (\<lambda>(k, v). k @ [61] @ v) params)"

definition strip_www :: "jsstring \<Rightarrow> jsstring" where
  \<comment> \<open>\<open>.replace(/^www\./, '')\<close>\<close>
  "strip_www h = (if starts_with (str ''www.'') h then drop 4 h else h)"

definition set_hostname :: "URL \<Rightarrow> jsstring \<Rightarrow> URL" where
  \<comment> \<open>the setter of \<open>hostname\<close>: an empty host is not accepted\<close>
  "set_hostname u h = (if h = [] then u else u\<lparr>hostname := toLowerCase h\<rparr>)"

definition strip_www_host :: "URL \<Rightarrow> URL" where
  \<comment> \<open>\<open>urlObj.hostname = urlObj.hostname.replace(/^www\./, '')\<close>\<close>
  "strip_www_host u = set_hostname u (strip_www (hostname u))"

definition lower_case_parts :: "URL \<Rightarrow> URL" where
  \<comment> \<open>host name and path name in lower case\<close>
  "lower_case_parts u =
     (set_hostname u (toLowerCase (hostname u)))\<lparr>pathname := toLowerCase (pathname u)\<rparr>"

definition strip_trailing_slash :: "URL \<Rightarrow> URL" where
  \<comment> \<open>\<open>if (pathname.endsWith('/') && pathname.length > 1) pathname = pathname.slice(0, -1)\<close>\<close>
  "strip_trailing_slash u =
     (if pathname u \<noteq> [] \<and> last (pathname u) = 47 \<and> length (pathname u) > 1
      then u\<lparr>pathname := butlast (pathname u)\<rparr> else u)"

definition strip_default_port :: "URL \<Rightarrow> URL" where
  "strip_default_port u =
     (if (protocol u = str ''http:'' \<and> port u = str ''80'') \<or>
         (protocol u = str ''https:'' \<and> port u = str ''443'')
      then u\<lparr>port := []\<rparr> else u)"

definition sorted_query :: "jsstring \<Rightarrow> jsstring" where
  \<comment> \<open>the query with its keys sorted; each key takes the value \<open>params.get(key) || ''\<close>\<close>
  "sorted_query s =
     params_toString
       (map (\<lambda>key. (key, or_empty (or_str (params_get (URLSearchParams s) key) None)))
          (sort (map fst (URLSearchParams s))))"

definition sort_query :: "URL \<Rightarrow> URL" where
  \<comment> \<open>\<open>urlObj.search = sortedParams.toString()\<close>\<close>
  "sort_query u =
     u\<lparr>search := (if sorted_query (search u) = [] then [] else 63 # sorted_query (search u))\<rparr>"

definition normalizeUrl :: "jsstring \<Rightarrow> jsstring" where
  \<comment> \<open>the steps of the \<open>try\<close> block in their order; the \<open>catch\<close> lower-cases the text\<close>
  "normalizeUrl url_text =
     (case parse_URL url_text of
        None \<Rightarrow> toLowerCase url_text
      | Some urlObj \<Rightarrow>
          URL_toString
            (sort_query
              (strip_default_port
                (strip_trailing_slash
                  (lower_case_parts
                    (strip_www_host urlObj))))))"

definition extractDomain :: "jsstring \<Rightarrow> jsstring" where
  "extractDomain url =
     (case parse_URL url of
        None \<Rightarrow> []
      | Some u \<Rightarrow> toLowerCase (strip_www (hostname u)))"

text \<open>
  The collection of sources is a list in the store's natural order; a query either throws
  or answers from it.  The reason of a result is the list of the signals that fired, each
  with its similarity (the source renders them as text with rounded percentages).
\<close>

record RSSMetadata =
  md_title :: "jsstring option"
  md_description :: "jsstring option"
  md_link :: "jsstring option"
  md_feedUrl :: "jsstring option"

record Source =
  src_id :: nat
  link :: jsstring
  metadata :: RSSMetadata

datatype signal =
    Title_similarity real
  | Description_similarity real
  | Website_link_similarity real
  | URL_similarity real

datatype check_reason =
    Exact_URL_match
  | Signals "signal list"
  | Content_similarity_analysis
  | Similarity_analysis

record DuplicationCheckResult =
  dc_isDuplicate :: bool
  existingSource :: "Source option"
  dc_reason :: "check_reason option"
  confidence :: real

definition same_domain :: "jsstring \<Rightarrow> Source \<Rightarrow> bool" where
  \<comment> \<open>\<open>link: { $regex: <the domain, escaped>, $options: 'i' }\<close>: the link contains the
      domain, letter case ignored\<close>
  "same_domain domain src \<longleftrightarrow> contains (toLowerCase domain) (toLowerCase (link src))"

definition score_source ::
  "jsstring \<Rightarrow> RSSMetadata \<Rightarrow> Source \<Rightarrow> real \<times> signal list" where
  \<comment> \<open>the body of the loop over the sources of the domain: confidence and reasons\<close>
  "score_source normalizedUrl md src =
     (let sourceMetadata = metadata src;
          titleSimilarity =
            calculateStringSimilarity (or_empty (md_title md)) (or_empty (md_title sourceMetadata));
          (confidence1, reasons1) =
            (if titleSimilarity > 0.85
             then (titleSimilarity * 0.4, [Title_similarity titleSimilarity]) else (0, []));
          descSimilarity =
            calculateStringSimilarity (or_empty (md_description md))
              (or_empty (md_description sourceMetadata));
          (confidence2, reasons2) =
            (if descSimilarity > 0.8
             then (confidence1 + descSimilarity * 0.3,
                   reasons1 @ [Description_similarity descSimilarity])
             else (confidence1, reasons1));
          linkSimilarity =
            calculateStringSimilarity (normalizeUrl (or_empty (or_str (md_link md) None)))
              (normalizeUrl (or_empty (or_str (md_link sourceMetadata) None)));
          (confidence3, reasons3) =
            (if linkSimilarity > 0.9
             then (confidence2 + linkSimilarity * 0.3,
                   reasons2 @ [Website_link_similarity linkSimilarity])
             else (confidence2, reasons2));
          normalizedExisting = normalizeUrl (link src);
          urlSimilarity = calculateStringSimilarity normalizedUrl normalizedExisting
      in if urlSimilarity > 0.8
         then (confidence3 + urlSimilarity * 0.2, reasons3 @ [URL_similarity urlSimilarity])
         else (confidence3, reasons3))"

fun best_match ::
  "jsstring \<Rightarrow> RSSMetadata \<Rightarrow> Source list \<Rightarrow> real \<times> Source option \<times> signal list \<Rightarrow>
   real \<times> Source option \<times> signal list" where
  \<comment> \<open>\<open>for (const source of sameDomainSources)\<close>, on (highestConfidence, bestMatch,
      bestReason)\<close>
  "best_match normalizedUrl md [] acc = acc"
| "best_match normalizedUrl md (src # rest) (highestConfidence, bestMatch, bestReason) =
     (let (confidence, reasons) = score_source normalizedUrl md src
      in best_match normalizedUrl md rest
           (if confidence > highestConfidence then (confidence, Some src, reasons)
            else (highestConfidence, bestMatch, bestReason)))"

definition checkForDuplicate ::
  "js_error + Source list \<Rightarrow> jsstring \<Rightarrow> RSSMetadata \<Rightarrow> DuplicationCheckResult" where
  \<comment> \<open>the content hash of the metadata is computed by the source and never used; an
      error of the store is caught and answered with "no duplicate"\<close>
  "checkForDuplicate db newUrl md =
     (case db of
        Inl error \<Rightarrow>
          \<lparr>dc_isDuplicate = False, existingSource = None, dc_reason = None, confidence = 0\<rparr>
      | Inr sources \<Rightarrow>
          (let normalizedUrl = normalizeUrl newUrl;
               domain = extractDomain newUrl
           in case find (\<lambda>s. link s = newUrl \<or> link s = normalizedUrl) sources of
                Some exactUrlMatch \<Rightarrow>
                  \<lparr>dc_isDuplicate = True, existingSource = Some exactUrlMatch,
                   dc_reason = Some Exact_URL_match, confidence = 1\<rparr>
              | None \<Rightarrow>
                  (let sameDomainSources = filter (same_domain domain) sources in
                   if sameDomainSources = [] then
                     \<lparr>dc_isDuplicate = False, existingSource = None, dc_reason = None,
                      confidence = 0\<rparr>
                   else
                     (let (highestConfidence, bestMatch, bestReason) =
                            best_match normalizedUrl md sameDomainSources (0, None, [])
                      in \<lparr>dc_isDuplicate = (highestConfidence > 0.75),
                          existingSource = bestMatch,
                          dc_reason = Some (if bestReason = [] then Content_similarity_analysis
                                            else Signals bestReason),
                          confidence = highestConfidence\<rparr>))))"

record PotentialDuplicate =
  pd_source :: Source
  pd_confidence :: real
  pd_reason :: check_reason

definition findPotentialDuplicates ::
  "js_error + Source list \<Rightarrow> nat \<Rightarrow> real \<Rightarrow> js_error + Source \<times> PotentialDuplicate list" where
  \<comment> \<open>\<open>wantedId\<close> is the parameter \<open>sourceId\<close>; an error (of the store, or "Source not
      found") is logged and thrown again\<close>
  "findPotentialDuplicates db wantedId threshold =
     (case db of
        Inl error \<Rightarrow> Inl error
      | Inr sources \<Rightarrow>
          (case find (\<lambda>s. src_id s = wantedId) sources of
             None \<Rightarrow> Inl (Error (str ''Source not found''))
           | Some src \<Rightarrow>
               (let domain = extractDomain (link src);
                    otherSources =
                      filter (\<lambda>s. src_id s \<noteq> wantedId \<and> same_domain domain s) sources;
                    duplicates =
                      concat (map (\<lambda>otherSource.
                        let result = checkForDuplicate db (link otherSource) (metadata otherSource)
                        in if confidence result > threshold
                           then [\<lparr>pd_source = otherSource, pd_confidence = confidence result,
                                  pd_reason = (case dc_reason result of
                                                 Some r \<Rightarrow> r | None \<Rightarrow> Similarity_analysis)\<rparr>]
                           else []) otherSources)
                in Inr (src, sort_key (\<lambda>d. - pd_confidence d) duplicates))))"

definition no_metadata :: RSSMetadata where
  \<comment> \<open>the metadata \<open>{}\<close>\<close>
  "no_metadata = \<lparr>md_title = None, md_description = None, md_link = None, md_feedUrl = None\<rparr>"

definition ex_stored :: Source where
  "ex_stored = \<lparr>src_id = 1, link = str ''http://example.com/rss'', metadata = no_metadata\<rparr>"

definition ex_unrelated :: Source where
  "ex_unrelated = \<lparr>src_id = 2, link = str ''http://other.org/feed'', metadata = no_metadata\<rparr>"

definition ex_atom :: Source where
  "ex_atom = \<lparr>src_id = 3, link = str ''http://example.com/atom'',
     metadata = \<lparr>md_title = Some (str ''Another feed''), md_description = None,
                 md_link = None, md_feedUrl = None\<rparr>\<rparr>"

definition self_match :: "Source \<Rightarrow> PotentialDuplicate" where
  \<comment> \<open>the entry reported for a source matched by the exact lookup\<close>
  "self_match S = \<lparr>pd_source = S, pd_confidence = 1, pd_reason = Exact_URL_match\<rparr>"

lemma lev_insert_front: "levenshtein xs (y # xs) = 1"
proof -
  have "levenshtein xs (y # xs) \<le> levenshtein xs xs + 1" by (rule lev_insert_le)
  moreover have "length (y # xs) \<le> levenshtein xs (y # xs) + length xs"
    using lev_length_bounds[of "y # xs" xs] by (rule conjunct1)
  ultimately show ?thesis by (simp add: lev_refl)
qed

lemmas url_defs = normalizeUrl_def parse_URL_def parse_after_scheme_def parse_parts_def
  stops_authority_def stops_path_def split_authority_def default_port_def
  set_hostname_def strip_www_def strip_www_host_def lower_case_parts_def strip_trailing_slash_def
  strip_default_port_def sort_query_def sorted_query_def URL_toString_def URLSearchParams_def
  params_toString_def params_get_def split_pair_def extractDomain_def

lemma ex_normalized:
  "normalizeUrl (str ''http://www.example.com/rss/'') = str ''http://example.com/rss''"
  "normalizeUrl (str ''https://www.example.com/rss/'') = str ''https://example.com/rss''"
  "normalizeUrl (str ''http://example.com/rss'') = str ''http://example.com/rss''"
  "normalizeUrl (str ''HTTP://WWW.Example.com:80/rss/'') = str ''http://example.com/rss''"
  by (simp_all add: url_defs string_defs)

lemma ex_domain:
  "extractDomain (str ''https://www.example.com/rss/'') = str ''example.com''"
  by (simp add: url_defs string_defs)

lemma ex_url_similarity:
  "calculateStringSimilarity (str ''https://example.com/rss'') (str ''http://example.com/rss'') = 22 / 23"
proof -
  have t: "trim (toLowerCase (str ''https://example.com/rss'')) = str ''https://example.com/rss''"
    "trim (toLowerCase (str ''http://example.com/rss'')) = str ''http://example.com/rss''"
    by (simp_all add: string_defs)
  have d: "levenshtein (str ''https://example.com/rss'') (str ''http://example.com/rss'') = 1"
    by (simp add: str_def lev_same_head lev_sym[of "115 # xs" xs for xs] lev_insert_front
        del: levenshtein.simps(3))
  have ne: "str ''https://example.com/rss'' \<noteq> []" "str ''http://example.com/rss'' \<noteq> []"
    by (simp_all add: str_def)
  show ?thesis
    using calculateStringSimilarity_distance[of "str ''https://example.com/rss''"
        "str ''http://example.com/rss''"] ne
    unfolding t d by (simp add: str_def)
qed

lemma checkForDuplicate_exact:
  assumes "find (\<lambda>s. link s = newUrl \<or> link s = normalizeUrl newUrl) sources = Some s"
  shows "checkForDuplicate (Inr sources) newUrl md =
     \<lparr>dc_isDuplicate = True, existingSource = Some s, dc_reason = Some Exact_URL_match,
      confidence = 1\<rparr>"
  using assms by (simp add: checkForDuplicate_def Let_def)

lemma checkForDuplicate_not_exact:
  assumes "find (\<lambda>s. link s = newUrl \<or> link s = normalizeUrl newUrl) sources = None"
  shows "dc_reason (checkForDuplicate (Inr sources) newUrl md) \<noteq> Some Exact_URL_match"
  using assms by (simp add: checkForDuplicate_def Let_def split: prod.splits)

lemma ex_score_https:
  "score_source (str ''https://example.com/rss'') no_metadata ex_stored =
     (22 / 115, [URL_similarity (22 / 23)])"
proof -
  have e: "calculateStringSimilarity [] [] = 0" by (simp add: calculateStringSimilarity_def)
  have n: "normalizeUrl [] = []" by (simp add: normalizeUrl_def parse_URL_def string_defs)
  show ?thesis
    unfolding score_source_def Let_def
    by (simp add: no_metadata_def ex_stored_def or_empty_def or_str_def e n ex_normalized
        ex_url_similarity)
qed

theorem source_https_counterexample:
  "checkForDuplicate (Inr [ex_stored]) (str ''https://www.example.com/rss/'') no_metadata =
     \<lparr>dc_isDuplicate = False, existingSource = Some ex_stored,
      dc_reason = Some (Signals [URL_similarity (22 / 23)]), confidence = 22 / 115\<rparr>"
proof -
  have l: "link ex_stored = str ''http://example.com/rss''" by (simp add: ex_stored_def)
  have ne: "str ''http://example.com/rss'' \<noteq> str ''https://www.example.com/rss/''"
    "str ''http://example.com/rss'' \<noteq> str ''https://example.com/rss''"
    by (simp_all add: str_def)
  have dom: "same_domain (str ''example.com'') ex_stored"
    by (simp add: same_domain_def l string_defs)
  show ?thesis
    unfolding checkForDuplicate_def Let_def
    by (simp add: ex_normalized ex_domain l ne dom ex_score_https)
qed

text \<open>
  Claim C8, amended.  The normalisation lower-cases the host, strips \<open>www.\<close>, default ports
  and a trailing slash and sorts the query parameters, but keeps the scheme.  So registering
  \<open>http://www.example.com/rss/\<close> when a source with link \<open>http://example.com/rss\<close> exists
  is detected as a duplicate with confidence 1.0 by the exact lookup on the normalised URL,
  whatever the metadata; \<open>https://www.example.com/rss/\<close> is normalised to
  \<open>https://example.com/rss\<close>, which is not the stored link, and the exact lookup does not
  fire for it.  In general the lookup fires exactly for a stored link equal to the raw or
  the normalised candidate.
\<close>

theorem source_exact_match_amended:
  "normalizeUrl (str ''http://www.example.com/rss/'') = str ''http://example.com/rss''
   \<and> normalizeUrl (str ''https://www.example.com/rss/'') = str ''https://example.com/rss''
   \<and> (\<forall>md. checkForDuplicate (Inr [ex_stored]) (str ''http://www.example.com/rss/'') md =
          \<lparr>dc_isDuplicate = True, existingSource = Some ex_stored,
           dc_reason = Some Exact_URL_match, confidence = 1\<rparr>)
   \<and> (\<forall>md. dc_reason (checkForDuplicate (Inr [ex_stored]) (str ''https://www.example.com/rss/'') md)
          \<noteq> Some Exact_URL_match)
   \<and> (\<forall>sources newUrl md.
         (\<exists>s \<in> set sources. link s = newUrl \<or> link s = normalizeUrl newUrl) \<longrightarrow>
           dc_isDuplicate (checkForDuplicate (Inr sources) newUrl md) \<and>
           confidence (checkForDuplicate (Inr sources) newUrl md) = 1 \<and>
           dc_reason (checkForDuplicate (Inr sources) newUrl md) = Some Exact_URL_match)
   \<and> (\<forall>sources newUrl md.
         \<not> (\<exists>s \<in> set sources. link s = newUrl \<or> link s = normalizeUrl newUrl) \<longrightarrow>
           dc_reason (checkForDuplicate (Inr sources) newUrl md) \<noteq> Some Exact_URL_match)"
proof (intro conjI allI impI)
  have l: "link ex_stored = str ''http://example.com/rss''" by (simp add: ex_stored_def)
  show "checkForDuplicate (Inr [ex_stored]) (str ''http://www.example.com/rss/'') md =
          \<lparr>dc_isDuplicate = True, existingSource = Some ex_stored,
           dc_reason = Some Exact_URL_match, confidence = 1\<rparr>" for md
    by (rule checkForDuplicate_exact) (simp add: ex_normalized l)
  have ne: "str ''http://example.com/rss'' \<noteq> str ''https://www.example.com/rss/''"
    "str ''http://example.com/rss'' \<noteq> str ''https://example.com/rss''"
    by (simp_all add: str_def)
  show "dc_reason (checkForDuplicate (Inr [ex_stored]) (str ''https://www.example.com/rss/'') md)
          \<noteq> Some Exact_URL_match" for md
    by (rule checkForDuplicate_not_exact) (simp add: ex_normalized l ne)
next
  fix sources :: "Source list" and newUrl md
  assume "\<exists>s \<in> set sources. link s = newUrl \<or> link s = normalizeUrl newUrl"
  then obtain s where "find (\<lambda>s. link s = newUrl \<or> link s = normalizeUrl newUrl) sources = Some s"
    by (cases "find (\<lambda>s. link s = newUrl \<or> link s = normalizeUrl newUrl) sources")
       (auto simp: find_None_iff)
  from checkForDuplicate_exact[OF this, of md]
  show "dc_isDuplicate (checkForDuplicate (Inr sources) newUrl md)"
    "confidence (checkForDuplicate (Inr sources) newUrl md) = 1"
    "dc_reason (checkForDuplicate (Inr sources) newUrl md) = Some Exact_URL_match"
    by simp_all
next
  fix sources :: "Source list" and newUrl md
  assume "\<not> (\<exists>s \<in> set sources. link s = newUrl \<or> link s = normalizeUrl newUrl)"
  then have "find (\<lambda>s. link s = newUrl \<or> link s = normalizeUrl newUrl) sources = None"
    by (simp add: find_None_iff)
  then show "dc_reason (checkForDuplicate (Inr sources) newUrl md) \<noteq> Some Exact_URL_match"
    by (rule checkForDuplicate_not_exact)
qed (simp_all add: ex_normalized)

theorem source_exact_match_amended_witness:
  "dc_isDuplicate (checkForDuplicate (Inr [ex_unrelated, ex_stored])
       (str ''HTTP://WWW.Example.com:80/rss/'') no_metadata)
   \<and> confidence (checkForDuplicate (Inr [ex_unrelated, ex_stored])
       (str ''HTTP://WWW.Example.com:80/rss/'') no_metadata) = 1
   \<and> dc_reason (checkForDuplicate (Inr [ex_unrelated, ex_stored])
       (str ''HTTP://WWW.Example.com:80/rss/'') no_metadata) = Some Exact_URL_match"
proof -
  have "\<exists>s \<in> set [ex_unrelated, ex_stored].
      link s = str ''HTTP://WWW.Example.com:80/rss/'' \<or>
      link s = normalizeUrl (str ''HTTP://WWW.Example.com:80/rss/'')"
    by (simp add: ex_normalized ex_stored_def)
  then show ?thesis
    by (rule source_exact_match_amended[THEN conjunct2, THEN conjunct2, THEN conjunct2,
          THEN conjunct2, THEN conjunct1, THEN spec, THEN spec, THEN spec, THEN mp])
qed

lemma checkForDuplicate_own_link:
  assumes "S \<in> set sources"
  shows "\<exists>s. checkForDuplicate (Inr sources) (link S) md =
     \<lparr>dc_isDuplicate = True, existingSource = Some s, dc_reason = Some Exact_URL_match,
      confidence = 1\<rparr>"
proof -
  obtain s where "find (\<lambda>s. link s = link S \<or> link s = normalizeUrl (link S)) sources = Some s"
    using assms
    by (cases "find (\<lambda>s. link s = link S \<or> link s = normalizeUrl (link S)) sources")
       (auto simp: find_None_iff)
  from checkForDuplicate_exact[OF this] show ?thesis by blast
qed

lemma sort_key_constant:
  assumes "\<forall>x \<in> set xs. f x = (c :: real)"
  shows "sort_key f xs = xs"
proof -
  have "map f xs = replicate (length xs) c"
    using assms by (induction xs) simp_all
  then have "sorted (map f xs)" by (simp add: sorted_replicate)
  then show ?thesis by (rule sort_key_id_if_sorted)
qed

lemma findPotentialDuplicates_eq:
  assumes "find (\<lambda>s. src_id s = wantedId) sources = Some src" and "threshold < 1"
  shows "findPotentialDuplicates (Inr sources) wantedId threshold =
     Inr (src, map self_match
        (filter (\<lambda>s. src_id s \<noteq> wantedId \<and> same_domain (extractDomain (link src)) s) sources))"
proof -
  define others where
    "others = filter (\<lambda>s. src_id s \<noteq> wantedId \<and> same_domain (extractDomain (link src)) s) sources"
  have each: "(let result = checkForDuplicate (Inr sources) (link S) (metadata S)
      in if confidence result > threshold
         then [\<lparr>pd_source = S, pd_confidence = confidence result,
                pd_reason = (case dc_reason result of Some r \<Rightarrow> r | None \<Rightarrow> Similarity_analysis)\<rparr>]
         else []) = [self_match S]" if "S \<in> set others" for S
  proof -
    from that have "S \<in> set sources" by (simp add: others_def)
    from checkForDuplicate_own_link[OF this, of "metadata S"] assms(2)
    show ?thesis by (auto simp: self_match_def Let_def)
  qed
  have "concat (map (\<lambda>S. let result = checkForDuplicate (Inr sources) (link S) (metadata S)
      in if confidence result > threshold
         then [\<lparr>pd_source = S, pd_confidence = confidence result,
                pd_reason = (case dc_reason result of Some r \<Rightarrow> r | None \<Rightarrow> Similarity_analysis)\<rparr>]
         else []) others) = concat (map (\<lambda>S. [self_match S]) others)"
    using each by (intro arg_cong[where f = concat] map_cong refl) blast
  also have "\<dots> = map self_match others" by (induction others) simp_all
  finally have dups: "concat (map (\<lambda>S. let result = checkForDuplicate (Inr sources) (link S) (metadata S)
      in if confidence result > threshold
         then [\<lparr>pd_source = S, pd_confidence = confidence result,
                pd_reason = (case dc_reason result of Some r \<Rightarrow> r | None \<Rightarrow> Similarity_analysis)\<rparr>]
         else []) others) = map self_match others" .
  have "sort_key (\<lambda>d. - pd_confidence d) (map self_match others) = map self_match others"
    by (rule sort_key_constant[where c = "-1"]) (auto simp: self_match_def)
  then show ?thesis
    unfolding findPotentialDuplicates_def
    by (simp add: assms(1) Let_def others_def[symmetric] dups[unfolded Let_def])
qed

text \<open>
  Claim C10.  For a stored source and a threshold below 1 (the default is 0.7), the reverse
  lookup reports every other stored source whose link contains the domain of the first,
  each with confidence 1.0 and the reason "Exact URL match", whatever their titles,
  descriptions and links: the duplicate check of a stored source's own link is answered by
  the exact lookup, which finds that very source.
\<close>

theorem findPotentialDuplicates_self_match:
  assumes "find (\<lambda>s. src_id s = wantedId) sources = Some src" and "threshold < 1"
  shows "(\<forall>S \<in> set sources. \<forall>md.
            dc_isDuplicate (checkForDuplicate (Inr sources) (link S) md) \<and>
            confidence (checkForDuplicate (Inr sources) (link S) md) = 1 \<and>
            dc_reason (checkForDuplicate (Inr sources) (link S) md) = Some Exact_URL_match)
       \<and> findPotentialDuplicates (Inr sources) wantedId threshold =
            Inr (src, map (\<lambda>S. \<lparr>pd_source = S, pd_confidence = 1, pd_reason = Exact_URL_match\<rparr>)
              (filter (\<lambda>s. src_id s \<noteq> wantedId \<and> same_domain (extractDomain (link src)) s)
                 sources))
       \<and> (\<forall>S \<in> set sources.
            src_id S \<noteq> wantedId \<and> same_domain (extractDomain (link src)) S \<longrightarrow>
            (\<exists>dups. findPotentialDuplicates (Inr sources) wantedId threshold = Inr (src, dups) \<and>
               \<lparr>pd_source = S, pd_confidence = 1, pd_reason = Exact_URL_match\<rparr> \<in> set dups))"
proof (intro conjI ballI allI impI)
  fix S md
  assume "S \<in> set sources"
  from checkForDuplicate_own_link[OF this, of md]
  show "dc_isDuplicate (checkForDuplicate (Inr sources) (link S) md)"
    "confidence (checkForDuplicate (Inr sources) (link S) md) = 1"
    "dc_reason (checkForDuplicate (Inr sources) (link S) md) = Some Exact_URL_match"
    by auto
next
  have sm: "self_match = (\<lambda>S. \<lparr>pd_source = S, pd_confidence = 1, pd_reason = Exact_URL_match\<rparr>)"
    by (rule ext) (simp add: self_match_def)
  show eq: "findPotentialDuplicates (Inr sources) wantedId threshold =
      Inr (src, map (\<lambda>S. \<lparr>pd_source = S, pd_confidence = 1, pd_reason = Exact_URL_match\<rparr>)
        (filter (\<lambda>s. src_id s \<noteq> wantedId \<and> same_domain (extractDomain (link src)) s) sources))"
    using findPotentialDuplicates_eq[OF assms] unfolding sm .
  fix S
  assume "S \<in> set sources"
    and "src_id S \<noteq> wantedId \<and> same_domain (extractDomain (link src)) S"
  then show "\<exists>dups. findPotentialDuplicates (Inr sources) wantedId threshold = Inr (src, dups) \<and>
      \<lparr>pd_source = S, pd_confidence = 1, pd_reason = Exact_URL_match\<rparr> \<in> set dups"
    unfolding eq by auto
qed

theorem findPotentialDuplicates_self_match_witness:
  "findPotentialDuplicates (Inr [ex_stored, ex_unrelated, ex_atom]) 1 0.7 =
     Inr (ex_stored, [\<lparr>pd_source = ex_atom, pd_confidence = 1, pd_reason = Exact_URL_match\<rparr>])"
proof -
  have f: "find (\<lambda>s. src_id s = 1) [ex_stored, ex_unrelated, ex_atom] = Some ex_stored"
    by (simp add: ex_stored_def)
  have d: "extractDomain (link ex_stored) = str ''example.com''"
    by (simp add: ex_stored_def url_defs string_defs)
  have s: "same_domain (str ''example.com'') ex_atom" "\<not> same_domain (str ''example.com'') ex_unrelated"
    by (simp_all add: same_domain_def ex_atom_def ex_unrelated_def string_defs)
  have i: "src_id ex_stored = 1" "src_id ex_unrelated = 2" "src_id ex_atom = 3"
    by (simp_all add: ex_stored_def ex_unrelated_def ex_atom_def)
  show ?thesis
    using findPotentialDuplicates_self_match[OF f, of "0.7", THEN conjunct2, THEN conjunct1]
    by (simp add: d s i)
qed

section \<open>The duplicate sweep\<close>

text \<open>
  The detection pass of \<open>findAndRemoveDuplicates\<close>: the loop over the stored articles,
  oldest first.  It fills \<open>duplicatesToRemove\<close>; the removal pass that follows when
  \<open>dryRun\<close> is false deletes the documents listed there and is not part of this section.
  The map \<open>processedArticles\<close> is a list of entries in insertion order.  The simple
  similarity of the service is, word for word, \<open>calculateSimpleSimilarity\<close> of the search
  service.
\<close>

definition commonWords :: "jsstring list" where
  \<comment> \<open>the twenty-two Russian function words of \<open>calculateTitleSimilarity\<close>\<close>
  "commonWords =
     [[0x432], [0x43D, 0x430], [0x441], [0x43F, 0x43E], [0x434, 0x43B, 0x44F], [0x438, 0x437],
      [0x43E], [0x43E, 0x442], [0x43A], [0x438], [0x430], [0x43D, 0x43E], [0x438, 0x43B, 0x438],
      [0x447, 0x442, 0x43E], [0x43A, 0x430, 0x43A], [0x437, 0x430], [0x434, 0x43E],
      [0x43F, 0x440, 0x438], [0x441, 0x43E], [0x432, 0x43E], [0x43D, 0x435], [0x436, 0x435]]"

definition title_normalize :: "jsstring \<Rightarrow> jsstring" where
  \<comment> \<open>lower case; the quotes \<open>\<guillemotleft> \<guillemotright> "\<close> and U+201E become \<open>"\<close>; the dashes U+2014 and U+2013
      become \<open>-\<close>; the punctuation \<open>.,!?;:\<close> is removed; white space collapsed; trimmed\<close>
  "title_normalize text =
     trim (collapse_spaces
       (filter (\<lambda>c. c \<notin> set (str ''.,!?;:''))
         (map (\<lambda>c. if c = 0x2014 \<or> c = 0x2013 then 45 else c)
           (map (\<lambda>c. if c = 0xAB \<or> c = 0xBB \<or> c = 34 \<or> c = 0x201E then 34 else c)
             (toLowerCase text)))))"

definition title_words :: "jsstring \<Rightarrow> jsstring list" where
  "title_words text =
     filter (\<lambda>w. length w > 2 \<and> w \<notin> set commonWords) (split_on 32 (title_normalize text))"

definition calculateTitleSimilarity :: "jsstring \<Rightarrow> jsstring \<Rightarrow> real" where
  "calculateTitleSimilarity title1 title2 =
     (if title_words title1 = [] \<or> title_words title2 = [] then 0
      else set_ratio (title_words title1) (title_words title2))"

datatype sweep_method =
    simple_title_match
  | advanced_title_match
  | exact_content_hash
  | search_method method_kind

record removal =
  rm_id :: nat
  rm_title :: "jsstring option"
  rm_original :: NewsNormalized
  rm_similarity :: real
  rm_method :: sweep_method

record sweep =
  processedArticles :: "(jsstring \<times> NewsNormalized) list"
  duplicatesToRemove :: "removal list"
  duplicatesFound :: nat
  sweep_errors :: nat
  sweep_draws :: nat

fun map_set :: "('k \<times> 'v) list \<Rightarrow> 'k \<Rightarrow> 'v \<Rightarrow> ('k \<times> 'v) list" where
  \<comment> \<open>\<open>map.set(key, value)\<close>: a present key keeps its place, a new one goes last\<close>
  "map_set [] k v = [(k, v)]"
| "map_set ((k', v') # entries) k v =
     (if k' = k then (k, v) # entries else (k', v') # map_set entries k v)"

fun title_stage ::
  "NewsNormalized \<Rightarrow> (jsstring \<times> NewsNormalized) list \<Rightarrow>
   js_error + (NewsNormalized \<times> sweep_method \<times> real) option" where
  \<comment> \<open>stage 1, the loop over the entries; reading the title of an article that has none
      throws\<close>
  "title_stage currentNews [] = Inr None"
| "title_stage currentNews ((key, existingArticle) # entries) =
     (case titleCanonical currentNews of
        None \<Rightarrow> Inl (Error (str ''Cannot read properties of undefined''))
      | Some currentTitle \<Rightarrow>
          (case titleCanonical existingArticle of
             None \<Rightarrow> Inl (Error (str ''Cannot read properties of undefined''))
           | Some existingTitle \<Rightarrow>
               (let advancedSimilarity =
                      calculateTitleSimilarity (trim (toLowerCase currentTitle))
                        (trim (toLowerCase existingTitle));
                    simpleSimilarity =
                      calculateSimpleSimilarity (trim (toLowerCase currentTitle))
                        (trim (toLowerCase existingTitle))
                in if advancedSimilarity > 0.85 \<or> simpleSimilarity > 0.9
                   then Inr (Some (existingArticle,
                          if simpleSimilarity > 0.9 then simple_title_match
                          else advanced_title_match,
                          max advancedSimilarity simpleSimilarity))
                   else title_stage currentNews entries)))"

definition contentForHash :: "NewsNormalized \<Rightarrow> jsstring" where
  \<comment> \<open>\<open>(titleCanonical + ' ' + (summaryShort || '')).toLowerCase().trim()\<close>; a missing
      title is concatenated as the text \<open>undefined\<close>\<close>
  "contentForHash news =
     trim (toLowerCase
       ((case titleCanonical news of None \<Rightarrow> str ''undefined'' | Some t \<Rightarrow> t)
          @ [32] @ or_empty (summaryShort news)))"

fun content_stage ::
  "platform \<Rightarrow> nat \<Rightarrow> jsstring \<Rightarrow> (jsstring \<times> NewsNormalized) list \<Rightarrow>
   NewsNormalized option \<times> nat" where
  \<comment> \<open>stage 2, the loop over the entries: the hash of each accepted article is computed
      anew\<close>
  "content_stage p k contentHash [] = (None, k)"
| "content_stage p k contentHash ((existingHash, existingArticle) # entries) =
     (let (existingContentHash, k1) = generateContentHash p k (contentForHash existingArticle)
      in if contentHash = existingContentHash then (Some existingArticle, k1)
         else content_stage p k1 contentHash entries)"

definition sweep_document :: "NewsNormalized \<Rightarrow> NewsDocument" where
  \<comment> \<open>the document handed to \<open>checkForDuplicates\<close> in stage 3\<close>
  "sweep_document news =
     \<lparr>doc_id = None, title = titleCanonical news, content = Some (or_empty (summaryShort news)),
      source = source_name news, created_at = createdAt news, content_hash = None,
      title_hash = None\<rparr>"

definition semantic_match ::
  "DuplicationResult \<Rightarrow> (jsstring \<times> NewsNormalized) list \<Rightarrow>
   (NewsNormalized \<times> sweep_method \<times> real) option" where
  \<comment> \<open>stage 3 after the check: the reported original is looked up by its title among
      the accepted articles\<close>
  "semantic_match duplicationResult entries =
     (case similarity_score duplicationResult of
        None \<Rightarrow> None
      | Some s \<Rightarrow>
          if isDuplicate duplicationResult \<and> s \<noteq> 0 \<and> s > 0.9 then
            (case original duplicationResult of
               None \<Rightarrow> None
             | Some orig \<Rightarrow>
                 (case find (\<lambda>(key, existingArticle). titleCanonical existingArticle = title orig)
                         entries of
                    None \<Rightarrow> None
                  | Some (key, existingArticle) \<Rightarrow>
                      Some (existingArticle, search_method (dup_method duplicationResult), s)))
          else None)"

definition find_original ::
  "platform \<Rightarrow> gateway \<Rightarrow> nat \<Rightarrow> NewsNormalized \<Rightarrow> (jsstring \<times> NewsNormalized) list \<Rightarrow>
   js_error + (NewsNormalized \<times> sweep_method \<times> real) option \<times> nat" where
  \<comment> \<open>the three stages for one article: the match, if any, and the draws made\<close>
  "find_original p g k currentNews entries =
     (case title_stage currentNews entries of
        Inl e \<Rightarrow> Inl e
      | Inr (Some m) \<Rightarrow> Inr (Some m, k)
      | Inr None \<Rightarrow>
          (let (contentHash, k1) = generateContentHash p k (contentForHash currentNews);
               (found, k2) = content_stage p k1 contentHash entries
           in case found of
                Some existingArticle \<Rightarrow> Inr (Some (existingArticle, exact_content_hash, 1), k2)
              | None \<Rightarrow>
                  if entries \<noteq> [] then
                    Inr (semantic_match
                           (checkForDuplicates p g k2 (sweep_document currentNews)) entries,
                         draws_of_check p k2 (sweep_document currentNews))
                  else Inr (None, k2)))"

definition sweep_step :: "platform \<Rightarrow> gateway \<Rightarrow> sweep \<Rightarrow> NewsNormalized \<Rightarrow> sweep" where
  \<comment> \<open>the body of the loop over \<open>allNews\<close>, with its \<open>try\<close> and \<open>catch\<close>\<close>
  "sweep_step p g st currentNews =
     (case find_original p g (sweep_draws st) currentNews (processedArticles st) of
        Inl error \<Rightarrow> st\<lparr>sweep_errors := Suc (sweep_errors st)\<rparr>
      | Inr (Some (originalArticle, duplicateMethod, similarityScore), k) \<Rightarrow>
          st\<lparr>duplicatesToRemove := duplicatesToRemove st @
                [\<lparr>rm_id = news_id currentNews, rm_title = titleCanonical currentNews,
                  rm_original = originalArticle, rm_similarity = similarityScore,
                  rm_method = duplicateMethod\<rparr>],
             duplicatesFound := Suc (duplicatesFound st),
             sweep_draws := k\<rparr>
      | Inr (None, k) \<Rightarrow>
          (let (contentHash, k1) = generateContentHash p k (contentForHash currentNews)
           in st\<lparr>processedArticles := map_set (processedArticles st) contentHash currentNews,
                 sweep_draws := k1\<rparr>))"

definition sweep_start :: "nat \<Rightarrow> sweep" where
  "sweep_start k =
     \<lparr>processedArticles = [], duplicatesToRemove = [], duplicatesFound = 0, sweep_errors = 0,
      sweep_draws = k\<rparr>"

definition findAndRemoveDuplicates_scan ::
  "platform \<Rightarrow> gateway \<Rightarrow> nat \<Rightarrow> NewsNormalized list \<Rightarrow> sweep" where
  \<comment> \<open>\<open>NewsNormalized.find({}).sort({ createdAt: 1 })\<close>, then the loop; articles created at
      the same time stay in the order of the store\<close>
  "findAndRemoveDuplicates_scan p g k store =
     foldl (sweep_step p g) (sweep_start k) (sort_key createdAt store)"

definition small_cyrillic_title :: "jsstring \<Rightarrow> bool" where
  \<comment> \<open>a title of two or more words in small Cyrillic letters (U+0430 to U+044F), with
      spaces between the words only; a condition on the input, not a function of the
      program\<close>
  "small_cyrillic_title t \<longleftrightarrow>
     t \<noteq> [] \<and> hd t \<noteq> 32 \<and> last t \<noteq> 32 \<and> 32 \<in> set t \<and>
     (\<forall>c \<in> set t. c = 32 \<or> (0x430 \<le> c \<and> c \<le> 0x44F))"

text \<open>
  Three stored articles on which the sweep is exercised.  Their titles are Russian-looking:
  the words of a title are the given Cyrillic letters, each written three times.
\<close>

definition ex_title :: "nat list \<Rightarrow> jsstring" where
  "ex_title letters = tl (concat (map (\<lambda>c. [32, c, c, c]) letters))"

definition ex_stored_article :: "nat \<Rightarrow> nat \<Rightarrow> jsstring \<Rightarrow> string \<Rightarrow> NewsNormalized" where
  \<comment> \<open>a stored article: its identifier, its creation time, its title and its summary\<close>
  "ex_stored_article i t titleText summaryText =
     \<lparr>newsRawId = Some (str ''raw''), sourceId = Some (str ''src''), externalId = Some (str ''ext''),
      source_name = Some (str ''feed''), article_url = Some (str ''http://example.com/a''),
      titleCanonical = Some titleText, lang = Some (str ''ru''),
      publishedAt = Some (PubDate t), summaryShort = Some (str summaryText),
      summaryShortOriginal = None, titleCanonicalOriginal = None, score = None,
      news_id = i, createdAt = t\<rparr>"

definition ex_first_title :: jsstring where
  \<comment> \<open>ten words\<close>
  "ex_first_title = ex_title [0x430, 0x431, 0x432, 0x433, 0x434, 0x435, 0x436, 0x437, 0x438, 0x43A]"

definition ex_second_title :: jsstring where
  \<comment> \<open>the first nine words of the first title\<close>
  "ex_second_title = ex_title [0x430, 0x431, 0x432, 0x433, 0x434, 0x435, 0x436, 0x437, 0x438]"

definition ex_third_title :: jsstring where
  \<comment> \<open>two words that occur in neither of the other titles\<close>
  "ex_third_title = ex_title [0x43B, 0x43C]"

definition ex_first :: NewsNormalized where
  "ex_first = ex_stored_article 1 100 ex_first_title ''sss''"

definition ex_second :: NewsNormalized where
  "ex_second = ex_stored_article 2 200 ex_second_title ''ttt''"

definition ex_third :: NewsNormalized where
  "ex_third = ex_stored_article 3 300 ex_third_title ''uuu''"

lemma title_stage_member:
  "title_stage cur entries = Inr (Some (orig, m, s)) \<Longrightarrow> orig \<in> snd ` set entries"
  by (induction entries) (auto simp: Let_def split: option.splits if_splits)

lemma content_stage_member:
  "content_stage p k h entries = (Some orig, k') \<Longrightarrow> orig \<in> snd ` set entries"
proof (induction entries arbitrary: k)
  case Nil
  then show ?case by simp
next
  case (Cons e entries)
  obtain eh ea where e: "e = (eh, ea)" by (cases e)
  obtain h1 k1 where g: "generateContentHash p k (contentForHash ea) = (h1, k1)"
    by (cases "generateContentHash p k (contentForHash ea)")
  show ?case
  proof (cases "h = h1")
    case True
    with Cons.prems e g have "orig = ea" by simp
    then show ?thesis by (simp add: e)
  next
    case False
    with Cons.prems e g have "content_stage p k1 h entries = (Some orig, k')" by simp
    from Cons.IH[OF this] show ?thesis by simp
  qed
qed

lemma semantic_match_member:
  "semantic_match r entries = Some (orig, m, s) \<Longrightarrow> orig \<in> snd ` set entries"
  by (auto simp: semantic_match_def find_Some_iff split: option.splits if_splits prod.splits)
     (metis nth_mem snd_conv image_eqI)

lemma find_original_member:
  assumes "find_original p g k cur entries = Inr (Some (orig, m, s), k')"
  shows "orig \<in> snd ` set entries"
  using assms title_stage_member[of cur entries orig] content_stage_member[of p _ _ entries orig]
    semantic_match_member[of _ entries orig]
  unfolding find_original_def Let_def
  by (auto split: sum.splits option.splits prod.splits if_splits)

lemma map_set_values: "snd ` set (map_set entries k v) \<subseteq> insert v (snd ` set entries)"
proof (induction entries)
  case Nil
  then show ?case by simp
next
  case (Cons e entries)
  obtain k' v' where e: "e = (k', v')" by (cases e)
  show ?case using Cons.IH by (cases "k' = k") (auto simp: e)
qed

lemma sweep_step_cases:
  obtains (error) "sweep_step p g st x = st\<lparr>sweep_errors := Suc (sweep_errors st)\<rparr>"
  | (duplicate) orig m s k' where "orig \<in> snd ` set (processedArticles st)"
      "sweep_step p g st x =
         st\<lparr>duplicatesToRemove := duplicatesToRemove st @
              [\<lparr>rm_id = news_id x, rm_title = titleCanonical x, rm_original = orig,
                rm_similarity = s, rm_method = m\<rparr>],
            duplicatesFound := Suc (duplicatesFound st), sweep_draws := k'\<rparr>"
  | (accepted) contentHash k1 where
      "sweep_step p g st x =
         st\<lparr>processedArticles := map_set (processedArticles st) contentHash x,
            sweep_draws := k1\<rparr>"
proof (cases "find_original p g (sweep_draws st) x (processedArticles st)")
  case (Inl e)
  then show ?thesis using error by (simp add: sweep_step_def)
next
  case (Inr r)
  obtain found k' where r: "r = (found, k')" by (cases r)
  show ?thesis
  proof (cases found)
    case None
    obtain h k1 where "generateContentHash p k' (contentForHash x) = (h, k1)"
      by (cases "generateContentHash p k' (contentForHash x)")
    then have "sweep_step p g st x =
        st\<lparr>processedArticles := map_set (processedArticles st) h x, sweep_draws := k1\<rparr>"
      using Inr r None by (simp add: sweep_step_def)
    then show ?thesis by (rule accepted)
  next
    case (Some t)
    obtain orig m s where t: "t = (orig, m, s)" by (cases t)
    from Inr r Some t have "orig \<in> snd ` set (processedArticles st)"
      using find_original_member by simp
    moreover have "sweep_step p g st x =
         st\<lparr>duplicatesToRemove := duplicatesToRemove st @
              [\<lparr>rm_id = news_id x, rm_title = titleCanonical x, rm_original = orig,
                rm_similarity = s, rm_method = m\<rparr>],
            duplicatesFound := Suc (duplicatesFound st), sweep_draws := k'\<rparr>"
      using Inr r Some t by (simp add: sweep_step_def)
    ultimately show ?thesis by (rule duplicate)
  qed
qed

lemma sweep_invariant_step:
  fixes xs :: "NewsNormalized list" and P P' :: "(jsstring \<times> NewsNormalized) list"
    and D D' :: "removal list"
  assumes I1: "\<forall>e \<in> snd ` set P. e \<in> set xs"
    and I2: "\<forall>d \<in> set D. rm_original d \<in> set xs
          \<and> (\<exists>a \<in> set xs. news_id a = rm_id d \<and> createdAt (rm_original d) \<le> createdAt a)"
    and I3: "\<forall>e \<in> snd ` set P. \<forall>d \<in> set D. news_id e \<noteq> rm_id d"
    and I4: "\<forall>d \<in> set D. \<forall>d' \<in> set D. news_id (rm_original d) \<noteq> rm_id d'"
    and fresh: "\<forall>y \<in> set xs. news_id y \<noteq> news_id x"
    and le: "\<forall>y \<in> set xs. createdAt y \<le> createdAt x"
    and step: "(P' = P \<and> D' = D)
       \<or> (\<exists>orig s m t. orig \<in> snd ` set P \<and> P' = P
            \<and> D' = D @ [\<lparr>rm_id = news_id x, rm_title = t, rm_original = orig,
                          rm_similarity = s, rm_method = m\<rparr>])
       \<or> (snd ` set P' \<subseteq> insert x (snd ` set P) \<and> D' = D)"
  shows "(\<forall>e \<in> snd ` set P'. e \<in> set (xs @ [x]))
    \<and> (\<forall>d \<in> set D'. rm_original d \<in> set (xs @ [x])
          \<and> (\<exists>a \<in> set (xs @ [x]). news_id a = rm_id d
                \<and> createdAt (rm_original d) \<le> createdAt a))
    \<and> (\<forall>e \<in> snd ` set P'. \<forall>d \<in> set D'. news_id e \<noteq> rm_id d)
    \<and> (\<forall>d \<in> set D'. \<forall>d' \<in> set D'. news_id (rm_original d) \<noteq> rm_id d')"
proof -
  have ids: "\<forall>d \<in> set D. rm_id d \<noteq> news_id x"
    using I2 fresh by metis
  have origs: "\<forall>d \<in> set D. news_id (rm_original d) \<noteq> news_id x"
    using I2 fresh by blast
  have I2': "\<forall>d \<in> set D. rm_original d \<in> set (xs @ [x])
          \<and> (\<exists>a \<in> set (xs @ [x]). news_id a = rm_id d
                \<and> createdAt (rm_original d) \<le> createdAt a)"
  proof
    fix d assume "d \<in> set D"
    with I2 obtain a where "rm_original d \<in> set xs" "a \<in> set xs" "news_id a = rm_id d"
      "createdAt (rm_original d) \<le> createdAt a" by blast
    then show "rm_original d \<in> set (xs @ [x])
          \<and> (\<exists>a \<in> set (xs @ [x]). news_id a = rm_id d
                \<and> createdAt (rm_original d) \<le> createdAt a)"
      by auto
  qed
  from step consider (same) "P' = P" "D' = D"
    | (duplicate) orig s m t where "orig \<in> snd ` set P" "P' = P"
        "D' = D @ [\<lparr>rm_id = news_id x, rm_title = t, rm_original = orig,
                     rm_similarity = s, rm_method = m\<rparr>]"
    | (accepted) "snd ` set P' \<subseteq> insert x (snd ` set P)" "D' = D"
    by blast
  then show ?thesis
  proof cases
    case same
    have "\<forall>e \<in> snd ` set P. e \<in> set (xs @ [x])" using I1 by simp
    then show ?thesis unfolding same using I2' I3 I4 by blast
  next
    case duplicate
    define n where "n = \<lparr>rm_id = news_id x, rm_title = t, rm_original = orig,
                     rm_similarity = s, rm_method = m\<rparr>"
    have n: "rm_id n = news_id x" "rm_original n = orig" by (simp_all add: n_def)
    have D': "set D' = insert n (set D)" by (simp add: duplicate(3) n_def)
    have orig: "orig \<in> set xs" using duplicate(1) I1 by blast
    have o1: "news_id orig \<noteq> news_id x" using orig fresh by blast
    have o2: "\<forall>d \<in> set D. news_id orig \<noteq> rm_id d" using duplicate(1) I3 by blast
    have o3: "createdAt orig \<le> createdAt x" using orig le by blast
    have e1: "\<forall>e \<in> snd ` set P. news_id e \<noteq> news_id x" using I1 fresh by blast
    have G1: "\<forall>e \<in> snd ` set P'. e \<in> set (xs @ [x])" using I1 duplicate(2) by simp
    have G2n: "rm_original n \<in> set (xs @ [x])
          \<and> (\<exists>a \<in> set (xs @ [x]). news_id a = rm_id n
                \<and> createdAt (rm_original n) \<le> createdAt a)"
      using orig o3 by (simp add: n)
    have G2: "\<forall>d \<in> set D'. rm_original d \<in> set (xs @ [x])
          \<and> (\<exists>a \<in> set (xs @ [x]). news_id a = rm_id d
                \<and> createdAt (rm_original d) \<le> createdAt a)"
      unfolding D' using G2n I2' by blast
    have G3: "\<forall>e \<in> snd ` set P'. \<forall>d \<in> set D'. news_id e \<noteq> rm_id d"
      unfolding D' duplicate(2) using I3 e1 by (simp add: n)
    have G4: "\<forall>d \<in> set D'. \<forall>d' \<in> set D'. news_id (rm_original d) \<noteq> rm_id d'"
      unfolding D' using I4 o1 o2 origs by (simp add: n)
    show ?thesis using G1 G2 G3 G4 by blast
  next
    case accepted
    have v: "\<forall>e \<in> snd ` set P'. e = x \<or> e \<in> snd ` set P" using accepted(1) by blast
    have G1: "\<forall>e \<in> snd ` set P'. e \<in> set (xs @ [x])"
    proof
      fix e assume "e \<in> snd ` set P'"
      with v have "e = x \<or> e \<in> snd ` set P" by blast
      then show "e \<in> set (xs @ [x])" using I1 by auto
    qed
    have G3: "\<forall>e \<in> snd ` set P'. \<forall>d \<in> set D. news_id e \<noteq> rm_id d"
    proof
      fix e assume "e \<in> snd ` set P'"
      with v have "e = x \<or> e \<in> snd ` set P" by blast
      then show "\<forall>d \<in> set D. news_id e \<noteq> rm_id d" using I3 ids by metis
    qed
    show ?thesis unfolding accepted(2) using G1 I2' G3 I4 by blast
  qed
qed

lemma sweep_invariant:
  assumes "distinct (map news_id xs)" and "sorted (map createdAt xs)"
  shows "(\<forall>e \<in> snd ` set (processedArticles (foldl (sweep_step p g) (sweep_start k) xs)).
            e \<in> set xs)
    \<and> (\<forall>d \<in> set (duplicatesToRemove (foldl (sweep_step p g) (sweep_start k) xs)).
          rm_original d \<in> set xs
          \<and> (\<exists>a \<in> set xs. news_id a = rm_id d \<and> createdAt (rm_original d) \<le> createdAt a))
    \<and> (\<forall>e \<in> snd ` set (processedArticles (foldl (sweep_step p g) (sweep_start k) xs)).
          \<forall>d \<in> set (duplicatesToRemove (foldl (sweep_step p g) (sweep_start k) xs)).
            news_id e \<noteq> rm_id d)
    \<and> (\<forall>d \<in> set (duplicatesToRemove (foldl (sweep_step p g) (sweep_start k) xs)).
          \<forall>d' \<in> set (duplicatesToRemove (foldl (sweep_step p g) (sweep_start k) xs)).
            news_id (rm_original d) \<noteq> rm_id d')"
  using assms
proof (induction xs rule: rev_induct)
  case Nil
  then show ?case by (simp add: sweep_start_def)
next
  case (snoc x xs)
  define st where "st = foldl (sweep_step p g) (sweep_start k) xs"
  from snoc.prems have dist: "distinct (map news_id xs)"
    and notin: "news_id x \<notin> news_id ` set xs"
    and sorted: "sorted (map createdAt xs)" and le: "\<forall>y \<in> set xs. createdAt y \<le> createdAt x"
    by (auto simp: sorted_append)
  from notin have fresh: "\<forall>y \<in> set xs. news_id y \<noteq> news_id x"
    by (metis imageI)
  note IH = snoc.IH[OF dist sorted, folded st_def]
  have step: "foldl (sweep_step p g) (sweep_start k) (xs @ [x]) = sweep_step p g st x"
    by (simp add: st_def)
  have "(processedArticles (sweep_step p g st x) = processedArticles st
          \<and> duplicatesToRemove (sweep_step p g st x) = duplicatesToRemove st)
       \<or> (\<exists>orig s m t. orig \<in> snd ` set (processedArticles st)
            \<and> processedArticles (sweep_step p g st x) = processedArticles st
            \<and> duplicatesToRemove (sweep_step p g st x) = duplicatesToRemove st @
                 [\<lparr>rm_id = news_id x, rm_title = t, rm_original = orig,
                   rm_similarity = s, rm_method = m\<rparr>])
       \<or> (snd ` set (processedArticles (sweep_step p g st x))
             \<subseteq> insert x (snd ` set (processedArticles st))
            \<and> duplicatesToRemove (sweep_step p g st x) = duplicatesToRemove st)"
  proof (cases rule: sweep_step_cases[of p g st x])
    case error
    then show ?thesis by simp
  next
    case (duplicate orig m s k')
    then show ?thesis by auto
  next
    case (accepted h k')
    then show ?thesis using map_set_values[of "processedArticles st" h x] by simp
  qed
  from sweep_invariant_step[OF IH[THEN conjunct1] IH[THEN conjunct2, THEN conjunct1]
      IH[THEN conjunct2, THEN conjunct2, THEN conjunct1]
      IH[THEN conjunct2, THEN conjunct2, THEN conjunct2] fresh le this]
  show ?case unfolding step .
qed

lemma scan_order_independent:
  assumes "mset store' = mset store" and "inj_on createdAt (set store)"
  shows "findAndRemoveDuplicates_scan p g k store' = findAndRemoveDuplicates_scan p g k store"
proof -
  have "set store' = set store" using assms(1) by (rule mset_eq_setD)
  then have inj: "inj_on createdAt (set store')" using assms(2) by simp
  have "mset store' = mset (sort_key createdAt store)" using assms(1) by simp
  then have "sort_key createdAt store' = sort_key createdAt store"
    using inj by (rule sort_key_inj_key_eq) simp
  then show ?thesis by (simp add: findAndRemoveDuplicates_scan_def)
qed

lemma sort_three:
  assumes "createdAt a1 < createdAt a2" and "createdAt a2 < createdAt a3"
    and "mset store = {#a1, a2, a3#}"
  shows "sort_key createdAt store = [a1, a2, a3]"
proof (rule sort_key_inj_key_eq)
  show "mset store = mset [a1, a2, a3]" using assms(3) by (simp add: add_mset_commute)
  have "set store = {a1, a2, a3}" using assms(3) by (metis set_mset_mset set_mset_add_mset_insert set_mset_empty)
  then show "inj_on createdAt (set store)" using assms(1,2) by (auto simp: inj_on_def)
  show "sorted (map createdAt [a1, a2, a3])" using assms(1,2) by simp
qed

lemma sweep_step_accept:
  assumes "find_original p g (sweep_draws st) x (processedArticles st) = Inr (None, k')"
  shows "processedArticles (sweep_step p g st x) =
           map_set (processedArticles st) (fst (generateContentHash p k' (contentForHash x))) x"
    and "duplicatesToRemove (sweep_step p g st x) = duplicatesToRemove st"
    and "duplicatesFound (sweep_step p g st x) = duplicatesFound st"
    and "sweep_errors (sweep_step p g st x) = sweep_errors st"
  using assms by (simp_all add: sweep_step_def split: prod.splits)

lemma sweep_step_duplicate:
  assumes "find_original p g (sweep_draws st) x (processedArticles st) = Inr (Some (orig, m, s), k')"
  shows "processedArticles (sweep_step p g st x) = processedArticles st"
    and "duplicatesToRemove (sweep_step p g st x) =
           duplicatesToRemove st @
             [\<lparr>rm_id = news_id x, rm_title = titleCanonical x, rm_original = orig,
               rm_similarity = s, rm_method = m\<rparr>]"
    and "duplicatesFound (sweep_step p g st x) = Suc (duplicatesFound st)"
    and "sweep_errors (sweep_step p g st x) = sweep_errors st"
  using assms by (simp_all add: sweep_step_def)

lemma find_original_first: "\<exists>k'. find_original p g k x [] = Inr (None, k')"
  by (simp add: find_original_def split: prod.splits)

lemma find_original_title_match:
  assumes "titleCanonical x = Some t" and "titleCanonical e = Some t'"
    and "calculateTitleSimilarity (trim (toLowerCase t)) (trim (toLowerCase t')) > 0.85
         \<or> calculateSimpleSimilarity (trim (toLowerCase t)) (trim (toLowerCase t')) > 0.9"
  shows "find_original p g k x ((h, e) # entries) =
           Inr (Some (e,
                  if calculateSimpleSimilarity (trim (toLowerCase t)) (trim (toLowerCase t')) > 0.9
                  then simple_title_match else advanced_title_match,
                  max (calculateTitleSimilarity (trim (toLowerCase t)) (trim (toLowerCase t')))
                      (calculateSimpleSimilarity (trim (toLowerCase t)) (trim (toLowerCase t')))),
                k)"
  using assms by (simp add: find_original_def Let_def)

lemmas title_defs = calculateTitleSimilarity_def title_words_def title_normalize_def
  commonWords_def set_ratio_def calculateSimpleSimilarity_def simple_normalize_def Let_def

lemma cyrillic_lower: "small_cyrillic_title t \<Longrightarrow> toLowerCase t = t"
  unfolding toLowerCase_def small_cyrillic_title_def
  by (intro map_idI) (auto simp: lower_unit_def)

lemma cyrillic_letter_no_space:
  "0x430 \<le> c \<Longrightarrow> c \<le> 0x44F \<Longrightarrow> \<not> is_space c \<and> \<not> is_word c"
  by (auto simp: is_space_def is_word_def)

lemma cyrillic_trim:
  assumes "small_cyrillic_title t"
  shows "trim t = t"
proof -
  from assms have ne: "t \<noteq> []" and h: "hd t \<noteq> 32" and l: "last t \<noteq> 32"
    and all: "\<forall>c \<in> set t. c = 32 \<or> (0x430 \<le> c \<and> c \<le> 0x44F)"
    by (simp_all add: small_cyrillic_title_def)
  have "hd t \<in> set t" "last t \<in> set t" using ne by simp_all
  then have "\<not> is_space (hd t)" "\<not> is_space (last t)"
    using all h l cyrillic_letter_no_space by blast+
  then have "dropWhile is_space t = t" "dropWhile is_space (rev t) = rev t"
    using ne by (simp_all add: dropWhile_eq_self_iff hd_rev)
  then show ?thesis by (simp add: trim_def)
qed

lemma collapse_spaces_white:
  "ws \<noteq> [] \<Longrightarrow> \<forall>c \<in> set ws. is_space c \<Longrightarrow> collapse_spaces ws = [32]"
  by (induction ws rule: collapse_spaces.induct) simp_all

lemma cyrillic_simple_normalize:
  assumes "small_cyrillic_title t"
  shows "simple_normalize t = [32]"
proof -
  from assms have sp: "32 \<in> set t"
    and all: "\<forall>c \<in> set t. c = 32 \<or> (0x430 \<le> c \<and> c \<le> 0x44F)"
    by (simp_all add: small_cyrillic_title_def)
  have white: "is_space 32" by (simp add: is_space_def)
  then have "32 \<in> set (filter (\<lambda>c. is_word c \<or> is_space c) t)" using sp by simp
  then have ne: "filter (\<lambda>c. is_word c \<or> is_space c) t \<noteq> []"
    by (metis empty_iff empty_set)
  have "\<forall>c \<in> set (filter (\<lambda>c. is_word c \<or> is_space c) t). is_space c"
    using all cyrillic_letter_no_space white by auto
  with ne have "collapse_spaces (filter (\<lambda>c. is_word c \<or> is_space c) t) = [32]"
    by (rule collapse_spaces_white)
  then show ?thesis
    by (simp add: simple_normalize_def cyrillic_lower[OF assms] cyrillic_trim[OF assms])
qed

lemma cyrillic_simple_similarity:
  assumes "small_cyrillic_title s" and "small_cyrillic_title t"
  shows "calculateSimpleSimilarity (trim (toLowerCase s)) (trim (toLowerCase t)) = 1"
proof -
  have "s \<noteq> []" "t \<noteq> []" using assms by (simp_all add: small_cyrillic_title_def)
  then show ?thesis
    by (simp add: calculateSimpleSimilarity_def cyrillic_lower[OF assms(1)]
        cyrillic_lower[OF assms(2)] cyrillic_trim[OF assms(1)] cyrillic_trim[OF assms(2)]
        cyrillic_simple_normalize[OF assms(1)] cyrillic_simple_normalize[OF assms(2)])
qed


lemma sweep_cyrillic_scenario:
  assumes times: "createdAt a1 < createdAt a2" "createdAt a2 < createdAt a3"
    and store: "mset store = {#a1, a2, a3#}"
    and t1: "titleCanonical a1 = Some t1" and t2: "titleCanonical a2 = Some t2"
    and t3: "titleCanonical a3 = Some t3"
    and near: "calculateTitleSimilarity (trim (toLowerCase t2)) (trim (toLowerCase t1)) > 0.85"
    and c1: "small_cyrillic_title t1" and c3: "small_cyrillic_title t3"
  shows "map rm_id (duplicatesToRemove (findAndRemoveDuplicates_scan p g k store))
           = [news_id a2, news_id a3]
    \<and> map rm_original (duplicatesToRemove (findAndRemoveDuplicates_scan p g k store)) = [a1, a1]
    \<and> rm_method (last (duplicatesToRemove (findAndRemoveDuplicates_scan p g k store)))
         = simple_title_match
    \<and> map snd (processedArticles (findAndRemoveDuplicates_scan p g k store)) = [a1]
    \<and> duplicatesFound (findAndRemoveDuplicates_scan p g k store) = 2
    \<and> sweep_errors (findAndRemoveDuplicates_scan p g k store) = 0"
proof -
  define s0 where "s0 = sweep_start k"
  define s1 where "s1 = sweep_step p g s0 a1"
  define s2 where "s2 = sweep_step p g s1 a2"
  define s3 where "s3 = sweep_step p g s2 a3"
  have scan: "findAndRemoveDuplicates_scan p g k store = s3"
    by (simp add: findAndRemoveDuplicates_scan_def sort_three[OF times store]
        s0_def s1_def s2_def s3_def)
  have P0: "processedArticles s0 = []" and D0: "duplicatesToRemove s0 = []"
    and F0: "duplicatesFound s0 = 0" and E0: "sweep_errors s0 = 0"
    by (simp_all add: s0_def sweep_start_def)
  obtain k1 where "find_original p g (sweep_draws s0) a1 [] = Inr (None, k1)"
    using find_original_first by blast
  then have f1: "find_original p g (sweep_draws s0) a1 (processedArticles s0) = Inr (None, k1)"
    by (simp add: P0)
  define h1 where "h1 = fst (generateContentHash p k1 (contentForHash a1))"
  have P1: "processedArticles s1 = [(h1, a1)]" and D1: "duplicatesToRemove s1 = []"
    and F1: "duplicatesFound s1 = 0" and E1: "sweep_errors s1 = 0"
    using sweep_step_accept[OF f1] by (simp_all add: s1_def P0 D0 F0 E0 h1_def)
  from near have "calculateTitleSimilarity (trim (toLowerCase t2)) (trim (toLowerCase t1)) > 0.85
         \<or> calculateSimpleSimilarity (trim (toLowerCase t2)) (trim (toLowerCase t1)) > 0.9"
    by simp
  from find_original_title_match[OF t2 t1 this, of p g "sweep_draws s1" h1 "[]"]
  obtain m s where
    f2: "find_original p g (sweep_draws s1) a2 (processedArticles s1)
           = Inr (Some (a1, m, s), sweep_draws s1)"
    by (simp add: P1)
  have P2: "processedArticles s2 = [(h1, a1)]"
    and D2: "duplicatesToRemove s2 =
               [\<lparr>rm_id = news_id a2, rm_title = titleCanonical a2, rm_original = a1,
                 rm_similarity = s, rm_method = m\<rparr>]"
    and F2: "duplicatesFound s2 = 1" and E2: "sweep_errors s2 = 0"
    using sweep_step_duplicate[OF f2] by (simp_all add: s2_def P1 D1 F1 E1)
  have simple: "calculateSimpleSimilarity (trim (toLowerCase t3)) (trim (toLowerCase t1)) = 1"
    using c3 c1 by (rule cyrillic_simple_similarity)
  then have "calculateTitleSimilarity (trim (toLowerCase t3)) (trim (toLowerCase t1)) > 0.85
         \<or> calculateSimpleSimilarity (trim (toLowerCase t3)) (trim (toLowerCase t1)) > 0.9"
    by simp
  from find_original_title_match[OF t3 t1 this, of p g "sweep_draws s2" h1 "[]"]
  obtain s' where
    f3: "find_original p g (sweep_draws s2) a3 (processedArticles s2)
           = Inr (Some (a1, simple_title_match, s'), sweep_draws s2)"
    by (simp add: P2 simple)
  have P3: "processedArticles s3 = [(h1, a1)]"
    and D3: "duplicatesToRemove s3 =
               [\<lparr>rm_id = news_id a2, rm_title = titleCanonical a2, rm_original = a1,
                 rm_similarity = s, rm_method = m\<rparr>,
                \<lparr>rm_id = news_id a3, rm_title = titleCanonical a3, rm_original = a1,
                 rm_similarity = s', rm_method = simple_title_match\<rparr>]"
    and F3: "duplicatesFound s3 = 2" and E3: "sweep_errors s3 = 0"
    using sweep_step_duplicate[OF f3] by (simp_all add: s3_def P2 D2 F2 E2)
  show ?thesis unfolding scan by (simp add: P3 D3 F3 E3)
qed

lemma ex_stored_article_fields:
  "news_id (ex_stored_article i t a b) = i"
  "createdAt (ex_stored_article i t a b) = t"
  "titleCanonical (ex_stored_article i t a b) = Some a"
  "summaryShort (ex_stored_article i t a b) = Some (str b)"
  by (simp_all add: ex_stored_article_def)

lemma ex_titles_cyrillic:
  "small_cyrillic_title
     ex_first_title"
  "small_cyrillic_title ex_third_title"
  by (simp_all add: small_cyrillic_title_def ex_title_def ex_first_title_def ex_second_title_def ex_third_title_def)

lemma ex_title_similarity:
  "calculateTitleSimilarity
     (trim (toLowerCase ex_second_title))
     (trim (toLowerCase ex_first_title))
     = 0.9"
  "calculateTitleSimilarity (trim (toLowerCase ex_third_title))
     (trim (toLowerCase ex_first_title))
     = 0"
  by (simp_all add: title_defs string_defs ex_title_def ex_first_title_def ex_second_title_def ex_third_title_def)


lemma ex_detailed_similarity:
  "calculateDetailedSimilarity (trim (toLowerCase ex_second_title))
     (trim (toLowerCase ex_first_title))
     = 0.9"
  by (simp add: sim_defs string_defs ex_title_def ex_first_title_def ex_second_title_def ex_third_title_def)

text \<open>
  Claim C9 fails on the code, in its scenario.  What the claim says of the order holds: the
  sweep goes through the stored articles oldest first, whatever the order in which the
  store holds them; for every article it marks, the original it records is a stored article
  created no later than the marked one and is itself never marked; no marked article is
  among the accepted ones; and when the creation times are pairwise different the outcome
  does not depend on the order of the store.  But the third article of the scenario is not
  kept when the titles are written in Cyrillic letters: the simple similarity deletes every
  character outside \<open>[A-Za-z0-9_]\<close> and white space before it compares, so any two titles
  of several Cyrillic words compare as equal, and the sweep marks the third article as a
  duplicate of the first by \<open>simple_title_match\<close>, whatever its words are.
\<close>

theorem sweep_marks_unrelated_cyrillic_article:
  "(distinct (map news_id store) \<longrightarrow>
      (\<forall>d \<in> set (duplicatesToRemove (findAndRemoveDuplicates_scan p g k store)).
          rm_original d \<in> set store
          \<and> (\<exists>a \<in> set store. news_id a = rm_id d
                \<and> createdAt (rm_original d) \<le> createdAt a)
          \<and> news_id (rm_original d)
               \<notin> rm_id ` set (duplicatesToRemove (findAndRemoveDuplicates_scan p g k store)))
      \<and> (\<forall>e \<in> snd ` set (processedArticles (findAndRemoveDuplicates_scan p g k store)).
            e \<in> set store
            \<and> news_id e
                 \<notin> rm_id ` set (duplicatesToRemove (findAndRemoveDuplicates_scan p g k store))))
   \<and> (mset store' = mset store \<and> inj_on createdAt (set store) \<longrightarrow>
        findAndRemoveDuplicates_scan p g k store' = findAndRemoveDuplicates_scan p g k store)
   \<and> (createdAt a1 < createdAt a2 \<and> createdAt a2 < createdAt a3
        \<and> mset store = {#a1, a2, a3#}
        \<and> titleCanonical a1 = Some t1 \<and> titleCanonical a2 = Some t2
        \<and> titleCanonical a3 = Some t3
        \<and> calculateTitleSimilarity (trim (toLowerCase t2)) (trim (toLowerCase t1)) > 0.85
        \<and> small_cyrillic_title t1 \<and> small_cyrillic_title t3 \<longrightarrow>
        map rm_id (duplicatesToRemove (findAndRemoveDuplicates_scan p g k store))
          = [news_id a2, news_id a3]
        \<and> map rm_original (duplicatesToRemove (findAndRemoveDuplicates_scan p g k store))
            = [a1, a1]
        \<and> rm_method (last (duplicatesToRemove (findAndRemoveDuplicates_scan p g k store)))
            = simple_title_match
        \<and> map snd (processedArticles (findAndRemoveDuplicates_scan p g k store)) = [a1]
        \<and> duplicatesFound (findAndRemoveDuplicates_scan p g k store) = 2
        \<and> sweep_errors (findAndRemoveDuplicates_scan p g k store) = 0)"
proof (intro conjI impI)
  assume distinct: "distinct (map news_id store)"
  define xs where "xs = sort_key createdAt store"
  define r where "r = foldl (sweep_step p g) (sweep_start k) xs"
  have scan: "findAndRemoveDuplicates_scan p g k store = r"
    by (simp add: findAndRemoveDuplicates_scan_def r_def xs_def)
  have set: "set xs = set store" by (simp add: xs_def)
  have "mset (map news_id xs) = mset (map news_id store)" by (simp add: xs_def)
  then have "distinct (map news_id xs)"
    using distinct by (metis mset_eq_imp_distinct_iff)
  moreover have "sorted (map createdAt xs)" by (simp add: xs_def)
  ultimately have inv:
    "(\<forall>e \<in> snd ` set (processedArticles r). e \<in> set xs)
    \<and> (\<forall>d \<in> set (duplicatesToRemove r). rm_original d \<in> set xs
          \<and> (\<exists>a \<in> set xs. news_id a = rm_id d \<and> createdAt (rm_original d) \<le> createdAt a))
    \<and> (\<forall>e \<in> snd ` set (processedArticles r). \<forall>d \<in> set (duplicatesToRemove r).
          news_id e \<noteq> rm_id d)
    \<and> (\<forall>d \<in> set (duplicatesToRemove r). \<forall>d' \<in> set (duplicatesToRemove r).
          news_id (rm_original d) \<noteq> rm_id d')"
    unfolding r_def by (rule sweep_invariant)
  show "\<forall>d \<in> set (duplicatesToRemove (findAndRemoveDuplicates_scan p g k store)).
          rm_original d \<in> set store
          \<and> (\<exists>a \<in> set store. news_id a = rm_id d
                \<and> createdAt (rm_original d) \<le> createdAt a)
          \<and> news_id (rm_original d)
               \<notin> rm_id ` set (duplicatesToRemove (findAndRemoveDuplicates_scan p g k store))"
    unfolding scan using inv unfolding set by blast
  show "\<forall>e \<in> snd ` set (processedArticles (findAndRemoveDuplicates_scan p g k store)).
            e \<in> set store
            \<and> news_id e
                 \<notin> rm_id ` set (duplicatesToRemove (findAndRemoveDuplicates_scan p g k store))"
    unfolding scan using inv unfolding set by blast
next
  assume "mset store' = mset store \<and> inj_on createdAt (set store)"
  then show "findAndRemoveDuplicates_scan p g k store' = findAndRemoveDuplicates_scan p g k store"
    using scan_order_independent by blast
next
  assume h: "createdAt a1 < createdAt a2 \<and> createdAt a2 < createdAt a3
        \<and> mset store = {#a1, a2, a3#}
        \<and> titleCanonical a1 = Some t1 \<and> titleCanonical a2 = Some t2
        \<and> titleCanonical a3 = Some t3
        \<and> calculateTitleSimilarity (trim (toLowerCase t2)) (trim (toLowerCase t1)) > 0.85
        \<and> small_cyrillic_title t1 \<and> small_cyrillic_title t3"
  have "map rm_id (duplicatesToRemove (findAndRemoveDuplicates_scan p g k store))
           = [news_id a2, news_id a3]
    \<and> map rm_original (duplicatesToRemove (findAndRemoveDuplicates_scan p g k store)) = [a1, a1]
    \<and> rm_method (last (duplicatesToRemove (findAndRemoveDuplicates_scan p g k store)))
         = simple_title_match
    \<and> map snd (processedArticles (findAndRemoveDuplicates_scan p g k store)) = [a1]
    \<and> duplicatesFound (findAndRemoveDuplicates_scan p g k store) = 2
    \<and> sweep_errors (findAndRemoveDuplicates_scan p g k store) = 0"
    by (rule sweep_cyrillic_scenario) (use h in blast)+
  then show "map rm_id (duplicatesToRemove (findAndRemoveDuplicates_scan p g k store))
           = [news_id a2, news_id a3]"
    and "map rm_original (duplicatesToRemove (findAndRemoveDuplicates_scan p g k store)) = [a1, a1]"
    and "rm_method (last (duplicatesToRemove (findAndRemoveDuplicates_scan p g k store)))
         = simple_title_match"
    and "map snd (processedArticles (findAndRemoveDuplicates_scan p g k store)) = [a1]"
    and "duplicatesFound (findAndRemoveDuplicates_scan p g k store) = 2"
    and "sweep_errors (findAndRemoveDuplicates_scan p g k store) = 0"
    by blast+
qed

theorem sweep_marks_unrelated_cyrillic_article_witness:
  "calculateTitleSimilarity (trim (toLowerCase ex_second_title))
     (trim (toLowerCase ex_first_title))
     = 0.9
   \<and> calculateDetailedSimilarity (trim (toLowerCase ex_second_title))
     (trim (toLowerCase ex_first_title))
     = 0.9
   \<and> calculateTitleSimilarity (trim (toLowerCase ex_third_title))
     (trim (toLowerCase ex_first_title))
     = 0
   \<and> map rm_id (duplicatesToRemove (findAndRemoveDuplicates_scan ex_platform (ex_gateway [] []) 0
          [ex_third, ex_first, ex_second])) = [2, 3]
   \<and> map rm_original (duplicatesToRemove (findAndRemoveDuplicates_scan ex_platform (ex_gateway [] []) 0
          [ex_third, ex_first, ex_second])) = [ex_first, ex_first]
   \<and> rm_method (last (duplicatesToRemove (findAndRemoveDuplicates_scan ex_platform (ex_gateway [] []) 0
          [ex_third, ex_first, ex_second]))) = simple_title_match
   \<and> map snd (processedArticles (findAndRemoveDuplicates_scan ex_platform (ex_gateway [] []) 0
          [ex_third, ex_first, ex_second])) = [ex_first]
   \<and> findAndRemoveDuplicates_scan ex_platform (ex_gateway [] []) 0 [ex_first, ex_second, ex_third]
       = findAndRemoveDuplicates_scan ex_platform (ex_gateway [] []) 0
          [ex_third, ex_first, ex_second]
   \<and> news_id ` rm_original ` set (duplicatesToRemove (findAndRemoveDuplicates_scan ex_platform (ex_gateway [] []) 0
          [ex_third, ex_first, ex_second]))
       \<inter> rm_id ` set (duplicatesToRemove (findAndRemoveDuplicates_scan ex_platform (ex_gateway [] []) 0
          [ex_third, ex_first, ex_second])) = {}
   \<and> news_id ` snd ` set (processedArticles (findAndRemoveDuplicates_scan ex_platform (ex_gateway [] []) 0
          [ex_third, ex_first, ex_second]))
       \<inter> rm_id ` set (duplicatesToRemove (findAndRemoveDuplicates_scan ex_platform (ex_gateway [] []) 0
          [ex_third, ex_first, ex_second])) = {}"
proof -
  note fields = ex_first_def ex_second_def ex_third_def ex_stored_article_fields
  note claim = sweep_marks_unrelated_cyrillic_article[where
      store = "[ex_third, ex_first, ex_second]"
      and store' = "[ex_first, ex_second, ex_third]" and p = ex_platform
      and g = "ex_gateway [] []" and k = 0 and ?a1.0 = ex_first and ?a2.0 = ex_second
      and ?a3.0 = ex_third
      and ?t1.0 = ex_first_title
      and ?t2.0 = ex_second_title
      and ?t3.0 = ex_third_title]
  have distinct: "distinct (map news_id [ex_third, ex_first, ex_second])"
    by (simp add: fields)
  have "inj_on createdAt (set [ex_third, ex_first, ex_second])"
    by (auto simp: inj_on_def fields)
  then have order: "mset [ex_first, ex_second, ex_third] = mset [ex_third, ex_first, ex_second]
      \<and> inj_on createdAt (set [ex_third, ex_first, ex_second])"
    by simp
  have scenario: "createdAt ex_first < createdAt ex_second
      \<and> createdAt ex_second < createdAt ex_third
      \<and> mset [ex_third, ex_first, ex_second] = {#ex_first, ex_second, ex_third#}
      \<and> titleCanonical ex_first
          = Some ex_first_title
      \<and> titleCanonical ex_second
          = Some ex_second_title
      \<and> titleCanonical ex_third = Some ex_third_title
      \<and> calculateTitleSimilarity
           (trim (toLowerCase ex_second_title))
           (trim (toLowerCase ex_first_title))
           > 0.85
      \<and> small_cyrillic_title
           ex_first_title
      \<and> small_cyrillic_title ex_third_title"
    unfolding ex_title_similarity
    by (simp add: fields ex_titles_cyrillic)
  define r where "r = findAndRemoveDuplicates_scan ex_platform (ex_gateway [] []) 0
      [ex_third, ex_first, ex_second]"
  from claim[THEN conjunct1, THEN mp, OF distinct, folded r_def]
  have originals: "news_id ` rm_original ` set (duplicatesToRemove r)
      \<inter> rm_id ` set (duplicatesToRemove r) = {}"
    and accepted: "news_id ` snd ` set (processedArticles r)
      \<inter> rm_id ` set (duplicatesToRemove r) = {}"
    by blast+
  from claim[THEN conjunct2, THEN conjunct1, THEN mp, OF order]
       claim[THEN conjunct2, THEN conjunct2, THEN mp, OF scenario]
       originals accepted
  show ?thesis
    unfolding r_def by (simp add: ex_title_similarity ex_detailed_similarity fields)
qed

end
